theory Spec2Isabelle
  imports Complex_Main
begin

section \<open>Observable events\<close>

text \<open>
  Every \<^verbatim>\<open>print\<close> of \<^verbatim>\<open>pedar.py\<close> and every read of a recording file is kept as
  one entry of a trace, in the order in which the program performs them.  An entry for a
  \<^verbatim>\<open>print\<close> holds the arguments of the format string, in the order of the source, and
  not the rendered text.
\<close>

datatype event =
    InvalidFoot string
      \<comment> \<open>\<^verbatim>\<open>'invalid foot type when enquiry {}'.format(self.path)\<close>\<close>
  | FatalStance string string string string string
      \<comment> \<open>\<^verbatim>\<open>'FATAL: {} - [{}][{}][{}][{}]'.format(self.name, condition, time, foot, stance)\<close>\<close>
  | LoadingEntries nat
      \<comment> \<open>\<^verbatim>\<open>"loading {} data entries".format(length)\<close>\<close>
  | InvalidAsc string
      \<comment> \<open>\<^verbatim>\<open>'invalid asc entry name: {}'.format(asc)\<close>\<close>
  | FatalEntry nat
      \<comment> \<open>\<^verbatim>\<open>'FATAL: {}-th entry'.format(index)\<close>\<close>
  | Progress nat nat
      \<comment> \<open>\<^verbatim>\<open>drawProgressBar((index + 1) / length)\<close>: numerator and denominator\<close>
  | ReadCsv string
      \<comment> \<open>\<^verbatim>\<open>pd.read_csv(self.path, ...)\<close> in \<^verbatim>\<open>Pedar_asc.__init__\<close>: the file is read\<close>

section \<open>Pedar\_asc.id\_map\<close>

text \<open>
  \<^verbatim>\<open>id_map\<close> returns an integer in its first two branches.  Its last branch prints and
  falls off the end of the function, so the caller receives Python's \<^verbatim>\<open>None\<close>: the
  result is an \<open>int option\<close>, paired with what was printed.  The first argument is
  \<^verbatim>\<open>self.path\<close>, the only attribute the method reads.
\<close>

definition id_map :: "string \<Rightarrow> string \<Rightarrow> int \<Rightarrow> event list \<times> int option" where
  "id_map path foot sensor_id =
     (if foot = ''L'' \<or> foot = ''l'' then ([], Some (sensor_id - 1))
      else if foot = ''R'' \<or> foot = ''r'' then ([], Some (sensor_id + 98))
      else ([InvalidFoot path], None))"

section \<open>The recording table and label slicing\<close>

text \<open>
  \<^verbatim>\<open>self.doc\<close> is the pandas data frame that \<^verbatim>\<open>read_csv\<close> builds from a recording
  file: a row index of times, integer column labels, and one row of values for each time.
  Times and values are Python floats; the model takes them as rationals, so the rounding
  to binary64 and the values \<^verbatim>\<open>nan\<close> and \<^verbatim>\<open>inf\<close> are left out.
\<close>

datatype py_error =
  KeyError | AttributeError | ValueError | IndexError | TypeError | FileNotFoundError

record dataframe =
  index :: "rat list"
  columns :: "int list"
  rows :: "rat list list"

record pedar_asc =
  path :: string
  doc :: dataframe

datatype side = Left | Right

text \<open>
  A label slice \<^verbatim>\<open>.loc[a:b]\<close> is resolved by pandas' \<^verbatim>\<open>Index.slice_locs\<close>, which asks
  \<^verbatim>\<open>get_slice_bound\<close> for each bound that is not \<^verbatim>\<open>None\<close>.  On an increasing index
  the bound is found by binary search (\<^verbatim>\<open>searchsorted\<close>), whether the label is present
  or not.  Otherwise a label that is present gives the first position of its
  occurrences (left) or the position after the last one (right) when the occurrences are
  adjacent, and \<^verbatim>\<open>KeyError\<close> when they are not; a label that is absent is searched in a
  decreasing index and raises \<^verbatim>\<open>KeyError\<close> in an index that is not monotonic.

  An index without entries is not a numeric one: it has the dtype \<^verbatim>\<open>object\<close> (so has the
  row index that \<^verbatim>\<open>read_csv\<close> gives for a recording without data lines), and there
  \<^verbatim>\<open>get_slice_bound\<close> refuses a numeric bound that is not among the labels with
  \<^verbatim>\<open>TypeError\<close>.  A bound \<^verbatim>\<open>None\<close> is not looked up and raises nothing.
\<close>

definition adjacent :: "'a list \<Rightarrow> 'a \<Rightarrow> bool" where
  "adjacent xs l =
     (let p = length (takeWhile (\<lambda>x. x \<noteq> l) xs); c = count_list xs l
      in take c (drop p xs) = replicate c l)"

definition get_slice_bound :: "'a::linorder list \<Rightarrow> 'a \<Rightarrow> side \<Rightarrow> py_error + nat" where
  "get_slice_bound idx label sd =
     (if idx = [] then Inl TypeError
      else if sorted idx then
        Inr (case sd of Left \<Rightarrow> length (filter (\<lambda>x. x < label) idx)
                      | Right \<Rightarrow> length (filter (\<lambda>x. x \<le> label) idx))
      else if label \<in> set idx then
        (if adjacent idx label then
           Inr (case sd of Left \<Rightarrow> length (takeWhile (\<lambda>x. x \<noteq> label) idx)
                         | Right \<Rightarrow> length (takeWhile (\<lambda>x. x \<noteq> label) idx) + count_list idx label)
         else Inl KeyError)
      else if sorted (rev idx) then
        Inr (case sd of Left \<Rightarrow> length (filter (\<lambda>x. label < x) idx)
                      | Right \<Rightarrow> length (filter (\<lambda>x. label \<le> x) idx))
      else Inl KeyError)"

definition slice_locs :: "'a::linorder list \<Rightarrow> 'a option \<Rightarrow> 'a option \<Rightarrow> py_error + nat \<times> nat" where
  "slice_locs idx start end =
     (case (case start of None \<Rightarrow> Inr 0 | Some l \<Rightarrow> get_slice_bound idx l Left) of
        Inl e \<Rightarrow> Inl e
      | Inr s \<Rightarrow>
          (case (case end of None \<Rightarrow> Inr (length idx) | Some l \<Rightarrow> get_slice_bound idx l Right) of
             Inl e \<Rightarrow> Inl e
           | Inr e \<Rightarrow> Inr (s, e)))"

text \<open>The positional slice \<^verbatim>\<open>xs[s:e]\<close> of Python, for \<open>s\<close> and \<open>e\<close> that are not negative.\<close>

definition py_slice :: "nat \<Rightarrow> nat \<Rightarrow> 'a list \<Rightarrow> 'a list" where
  "py_slice s e xs = drop s (take e xs)"

text \<open>\<^verbatim>\<open>df.loc[t0:t1, c0:c1]\<close>: the rows are resolved first, then the columns.\<close>

definition loc_slice ::
  "dataframe \<Rightarrow> rat option \<Rightarrow> rat option \<Rightarrow> int option \<Rightarrow> int option \<Rightarrow> py_error + dataframe" where
  "loc_slice df t0 t1 c0 c1 =
     (case slice_locs (index df) t0 t1 of
        Inl e \<Rightarrow> Inl e
      | Inr (rs, re) \<Rightarrow>
          (case slice_locs (columns df) c0 c1 of
             Inl e \<Rightarrow> Inl e
           | Inr (cs, ce) \<Rightarrow>
               Inr \<lparr>index = py_slice rs re (index df),
                    columns = py_slice cs ce (columns df),
                    rows = map (py_slice cs ce) (py_slice rs re (rows df))\<rparr>))"

text \<open>
  \<^verbatim>\<open>get_time_sensor_slice\<close> calls \<^verbatim>\<open>id_map\<close> for each end of the column range and hands
  the two results, which are \<^verbatim>\<open>None\<close> for an unknown foot, to \<^verbatim>\<open>.loc\<close> as the bounds
  of the column slice.  The callers of this repository leave the sensor range at its
  defaults 1 and 99.
\<close>

definition get_time_sensor_slice ::
  "pedar_asc \<Rightarrow> string \<Rightarrow> rat \<Rightarrow> rat \<Rightarrow> int \<Rightarrow> int \<Rightarrow> event list \<times> (py_error + dataframe)" where
  "get_time_sensor_slice self foot start_time end_time start_sensor_id end_sensor_id =
     (let (ev0, c0) = id_map (path self) foot start_sensor_id;
          (ev1, c1) = id_map (path self) foot end_sensor_id
      in (ev0 @ ev1, loc_slice (doc self) (Some start_time) (Some end_time) c0 c1))"

section \<open>Reading a stance string\<close>

text \<open>
  A cell of the spreadsheet is a string, a number, or empty (pandas gives \<^verbatim>\<open>nan\<close>).
\<close>

datatype pyval = PyStr string | PyNum rat | PyNaN

definition digit :: "char \<Rightarrow> bool" where
  "digit c = (c \<in> set ''0123456789'')"

definition numchar :: "char \<Rightarrow> bool" where
  "numchar c = (digit c \<or> c = CHR ''.'')"

text \<open>
  \<^verbatim>\<open>re.search('^[0-9\.]+[^-]', stance)\<close>.  The greedy \<^verbatim>\<open>[0-9\.]+\<close> first takes the
  longest run \<open>p\<close> of digits and dots at the start of the string.  If the next character
  exists and is not a dash the match is \<open>p\<close> and that character.  Otherwise the run
  gives back its last character to \<^verbatim>\<open>[^-]\<close>, which needs a run of two characters at
  least; giving back more does not help, and the match is \<open>p\<close> itself.
\<close>

definition search_start :: "string \<Rightarrow> string option" where
  "search_start s =
     (let p = takeWhile numchar s in
      if p = [] then None
      else (case dropWhile numchar s of
              c # _ \<Rightarrow> if c \<noteq> CHR ''-'' then Some (p @ [c])
                       else if 2 \<le> length p then Some p else None
            | [] \<Rightarrow> if 2 \<le> length p then Some p else None))"

text \<open>
  \<^verbatim>\<open>$\<close> matches at the end of the string and before a newline that ends the string; a
  match of a pattern that ends in \<^verbatim>\<open>[0-9\.]+$\<close> stops at the end of the string without
  that newline.
\<close>

definition strip_final_newline :: "string \<Rightarrow> string" where
  "strip_final_newline s = (if s \<noteq> [] \<and> last s = CHR 0x0A then butlast s else s)"

text \<open>
  \<^verbatim>\<open>re.search('[^-][0-9\.]+$', stance)\<close>: the leftmost match.  With \<open>q\<close> the longest run
  of digits and dots at the end and \<open>h\<close> what is before it, the match starts at the last
  character of \<open>h\<close> when that is not a dash, and at the first character of \<open>q\<close> otherwise,
  when \<open>q\<close> has two characters at least.
\<close>

definition search_end :: "string \<Rightarrow> string option" where
  "search_end s =
     (let t = strip_final_newline s;
          q = rev (takeWhile numchar (rev t));
          h = rev (dropWhile numchar (rev t))
      in if q = [] then None
         else if h \<noteq> [] \<and> last h \<noteq> CHR ''-'' then Some (last h # q)
         else if 2 \<le> length q then Some q else None)"

text \<open>
  \<^verbatim>\<open>float(...)\<close> on what the two searches return: a run of digits and dots with at most
  one more character at one end, which is never a dash.  Python removes the white space
  around the text and then accepts, of such strings, a sign followed by digits with at
  most one dot and at least one digit.  The other forms that \<^verbatim>\<open>float\<close> reads
  (exponents, underscores between digits, \<^verbatim>\<open>inf\<close>, \<^verbatim>\<open>nan\<close>) cannot come out of the
  two searches and are not part of the model; the strings are read as ASCII.
\<close>

definition py_space :: "char \<Rightarrow> bool" where
  "py_space c = (of_char c \<in> {9, 10, 11, 12, 13, 32 :: nat})"

definition strip :: "string \<Rightarrow> string" where
  "strip s = rev (dropWhile py_space (rev (dropWhile py_space s)))"

definition dec :: "string \<Rightarrow> nat" where
  "dec ds = foldl (\<lambda>a c. 10 * a + (of_char c - 48)) 0 ds"

definition py_float :: "string \<Rightarrow> rat option" where
  "py_float s =
     (let t = strip s;
          (sg, u) = (case t of
                       [] \<Rightarrow> (1, t)
                     | c # r \<Rightarrow> if c = CHR ''+'' then (1, r)
                               else if c = CHR ''-'' then (- 1, r) else (1, t));
          ip = takeWhile digit u
      in case dropWhile digit u of
           [] \<Rightarrow> if ip = [] then None else Some (sg * of_nat (dec ip))
         | c # fp \<Rightarrow>
             if c = CHR ''.'' \<and> list_all digit fp \<and> (ip \<noteq> [] \<or> fp \<noteq> [])
             then Some (sg * (of_nat (dec ip) + of_nat (dec fp) / 10 ^ length fp))
             else None)"

text \<open>
  \<^verbatim>\<open>float(re.search(...).group())\<close>: without a match \<^verbatim>\<open>re.search\<close> returns \<^verbatim>\<open>None\<close>,
  which has no \<^verbatim>\<open>group\<close>, and a match that is not a number makes \<^verbatim>\<open>float\<close> raise.
\<close>

definition stance_start :: "string \<Rightarrow> py_error + rat" where
  "stance_start stance =
     (case search_start stance of
        None \<Rightarrow> Inl AttributeError
      | Some g \<Rightarrow> (case py_float g of None \<Rightarrow> Inl ValueError | Some v \<Rightarrow> Inr v))"

definition stance_end :: "string \<Rightarrow> py_error + rat" where
  "stance_end stance =
     (case search_end stance of
        None \<Rightarrow> Inl AttributeError
      | Some g \<Rightarrow> (case py_float g of None \<Rightarrow> Inl ValueError | Some v \<Rightarrow> Inr v))"

section \<open>Pedar\_Subject.add\_trail\<close>

text \<open>
  \<^verbatim>\<open>self.trails\<close> is a dictionary of dictionaries: condition, then time, then the keys
  of one trial.  A trial holds the recording object under \<^verbatim>\<open>'asc'\<close> and, under each
  foot symbol, the dictionary of that foot.  A foot's dictionary holds numbers (the
  bounds of a stance) and table slices.
\<close>

datatype fact = Scalar rat | Slice dataframe

type_synonym foot_node = "string \<rightharpoonup> fact"

datatype entry = Asc pedar_asc | Foot foot_node

record pedar_subject =
  name :: string
  folder :: string
  trails :: "string \<rightharpoonup> (string \<rightharpoonup> (string \<rightharpoonup> entry))"

text \<open>\<^verbatim>\<open>str(idx)\<close> and \<^verbatim>\<open>'{}'.format(idx)\<close> for an index of \<^verbatim>\<open>range(...)\<close>: the decimal digits.\<close>

definition digit_of :: "nat \<Rightarrow> char" where
  "digit_of n = ''0123456789'' ! n"

function show_nat :: "nat \<Rightarrow> string" where
  "show_nat n = (if n < 10 then [digit_of n] else show_nat (n div 10) @ [digit_of (n mod 10)])"
  by pat_completeness auto
termination
  by (relation "measure id") auto

declare show_nat.simps [simp del]

text \<open>
  One pass of the loop body of \<^verbatim>\<open>add_trail\<close>, with its \<^verbatim>\<open>try\<close> and its bare
  \<^verbatim>\<open>except\<close>.  The state is the dictionary \<^verbatim>\<open>self.trails[condition][time][foot]\<close> and
  the events so far.  A stance that is not a string leaves the loop body by
  \<^verbatim>\<open>continue\<close>.  Both bounds are read before anything is stored; the two bounds are
  stored before the slice is taken, so they stay when taking the slice raises.  Whatever
  is raised, the handler prints one line and the loop goes on.
\<close>

fun add_trail_stance ::
  "string \<Rightarrow> string \<Rightarrow> string \<Rightarrow> string \<Rightarrow> pedar_asc \<Rightarrow> nat \<Rightarrow> pyval
     \<Rightarrow> foot_node \<times> event list \<Rightarrow> foot_node \<times> event list" where
  "add_trail_stance nm condition time foot asc_object idx (PyStr stance) (node, evs) =
     (case stance_start stance of
        Inl e \<Rightarrow> (node, evs @ [FatalStance nm condition time foot stance])
      | Inr start \<Rightarrow>
          (case stance_end stance of
             Inl e \<Rightarrow> (node, evs @ [FatalStance nm condition time foot stance])
           | Inr end \<Rightarrow>
               (let node' = node(show_nat idx @ ''_start'' \<mapsto> Scalar start,
                                 show_nat idx @ ''_end'' \<mapsto> Scalar end);
                    (ev, r) = get_time_sensor_slice asc_object foot start end 1 99
                in case r of
                     Inl e \<Rightarrow> (node', evs @ ev @ [FatalStance nm condition time foot stance])
                   | Inr sl \<Rightarrow> (node'(show_nat idx \<mapsto> Slice sl), evs @ ev))))"
| "add_trail_stance nm condition time foot asc_object idx (PyNum x) (node, evs) = (node, evs)"
| "add_trail_stance nm condition time foot asc_object idx PyNaN (node, evs) = (node, evs)"

text \<open>
  \<^verbatim>\<open>for idx in range(len(stances))\<close>, from the index of the first stance of the list;
  \<^verbatim>\<open>stances[idx]\<close> is the cell at position \<open>idx\<close>, which is there.
\<close>

fun add_trail_loop ::
  "string \<Rightarrow> string \<Rightarrow> string \<Rightarrow> string \<Rightarrow> pedar_asc \<Rightarrow> nat \<Rightarrow> pyval list
     \<Rightarrow> foot_node \<times> event list \<Rightarrow> foot_node \<times> event list" where
  "add_trail_loop nm condition time foot asc_object idx [] st = st"
| "add_trail_loop nm condition time foot asc_object idx (stance # stances) st =
     add_trail_loop nm condition time foot asc_object (Suc idx) stances
       (add_trail_stance nm condition time foot asc_object idx stance st)"

text \<open>
  \<^verbatim>\<open>Pedar_asc(path)\<close> reads the file at \<open>path\<close>.  The files are a parameter \<open>fs\<close>:
  what \<^verbatim>\<open>read_csv\<close> returns for a path, or nothing when it raises.
\<close>

definition Pedar_asc :: "(string \<Rightarrow> dataframe option) \<Rightarrow> string \<Rightarrow> event list \<times> (py_error + pedar_asc)" where
  "Pedar_asc fs p =
     ([ReadCsv p],
      case fs p of None \<Rightarrow> Inl FileNotFoundError | Some df \<Rightarrow> Inr \<lparr>path = p, doc = df\<rparr>)"

text \<open>
  \<^verbatim>\<open>add_trail\<close> returns the subject as it leaves it, the events, and the exception that
  leaves the method, if any: only the constructor of the recording object is outside
  the \<^verbatim>\<open>try\<close>.  The two dictionaries for the condition and the time are made before
  the file is read and stay when reading fails.
\<close>

definition add_trail ::
  "(string \<Rightarrow> dataframe option) \<Rightarrow> pedar_subject \<Rightarrow> string \<Rightarrow> string \<Rightarrow> string \<Rightarrow> string
     \<Rightarrow> pyval list \<Rightarrow> pedar_subject \<times> event list \<times> py_error option" where
  "add_trail fs self asc condition time foot stances =
     (let by_time = (case trails self condition of None \<Rightarrow> Map.empty | Some d \<Rightarrow> d);
          trial = (case by_time time of None \<Rightarrow> Map.empty | Some d \<Rightarrow> d);
          (ev, r) = Pedar_asc fs (folder self @ ''/'' @ name self @ ''/'' @ asc @ ''.asc'')
      in case r of
           Inl e \<Rightarrow>
             (self\<lparr>trails := (trails self)(condition \<mapsto> by_time(time \<mapsto> trial))\<rparr>, ev, Some e)
         | Inr asc_object \<Rightarrow>
             (let (node, evs) =
                    add_trail_loop (name self) condition time foot asc_object 0 stances
                      (Map.empty, ev)
              in (self\<lparr>trails := (trails self)(condition \<mapsto>
                       by_time(time \<mapsto> trial(''asc'' \<mapsto> Asc asc_object, foot \<mapsto> Foot node)))\<rparr>,
                  evs, None)))"

text \<open>\<^verbatim>\<open>self.trails[condition][time][key]\<close>, when the three keys are there.\<close>

definition trail_lookup :: "pedar_subject \<Rightarrow> string \<Rightarrow> string \<Rightarrow> string \<Rightarrow> entry option" where
  "trail_lookup self condition time key =
     (case trails self condition of
        None \<Rightarrow> None
      | Some by_time \<Rightarrow> (case by_time time of None \<Rightarrow> None | Some trial \<Rightarrow> trial key))"

definition is_read :: "event \<Rightarrow> bool" where
  "is_read e = (case e of ReadCsv p \<Rightarrow> True | _ \<Rightarrow> False)"

section \<open>Trails\_Parser\<close>

text \<open>
  A row of the spreadsheet that \<^verbatim>\<open>pd.read_excel\<close> returns: the identifier in the column
  \<^verbatim>\<open>'Unnamed: 0'\<close>, the foot symbol in \<^verbatim>\<open>'sideFoot'\<close>, and the cells from
  \<^verbatim>\<open>'stance phase 1'\<close> on.  The identifier and the foot symbol are strings.
\<close>

record sheet_row =
  ident :: string
  sideFoot :: string
  stance_cells :: "pyval list"

text \<open>
  \<^verbatim>\<open>re.match(self.asc_pattern, asc)\<close> with the pattern
  \<^verbatim>\<open>'S[1-9][0-9]* (' + '|'.join(condition_list) + ') [1-9][0-9]*$'\<close>.  The condition
  names are taken as plain text (names without characters that are special in a regular
  expression); joining an empty list gives the empty alternative.
\<close>

definition pos_number :: "string \<Rightarrow> bool" where
  "pos_number d = (d \<noteq> [] \<and> hd d \<noteq> CHR ''0'' \<and> list_all digit d)"

definition asc_match :: "string list \<Rightarrow> string \<Rightarrow> bool" where
  "asc_match condition_list asc =
     (case asc of
        [] \<Rightarrow> False
      | c # r \<Rightarrow>
          c = CHR ''S'' \<and> pos_number (takeWhile digit r) \<and>
          list_ex (\<lambda>cond.
              take (length cond + 2) (dropWhile digit r) = '' '' @ cond @ '' '' \<and>
              pos_number (strip_final_newline (drop (length cond + 2) (dropWhile digit r))))
            (if condition_list = [] then [''''] else condition_list))"

text \<open>
  \<^verbatim>\<open>re.search('(?<= )[a-z ]+(?= )', asc)\<close>: the leftmost position after a space where a
  run of lower-case letters and spaces starts that has a space after its first
  character; the match goes up to the last such space of the run, which is the space the
  look-ahead sees.
\<close>

definition lower_or_space :: "char \<Rightarrow> bool" where
  "lower_or_space c = (c \<in> set ''abcdefghijklmnopqrstuvwxyz '')"

definition condition_at :: "string \<Rightarrow> string option" where
  "condition_at s =
     (let run = takeWhile lower_or_space s;
          js = filter (\<lambda>j. run ! j = CHR '' '') [1..<length run]
      in if js = [] then None else Some (take (last js) run))"

fun search_condition :: "string \<Rightarrow> string option" where
  "search_condition (a # b # s) =
     (if a = CHR '' '' then
        (case condition_at (b # s) of
           Some m \<Rightarrow> Some m
         | None \<Rightarrow> search_condition (b # s))
      else search_condition (b # s))"
| "search_condition s = None"

text \<open>\<^verbatim>\<open>re.search('[0-9]+$', asc)\<close>: the digits that end the string.\<close>

definition search_time :: "string \<Rightarrow> string option" where
  "search_time asc =
     (let d = rev (takeWhile digit (rev (strip_final_newline asc)))
      in if d = [] then None else Some d)"

text \<open>\<^verbatim>\<open>re.search('^S[0-9]+', asc)\<close>.\<close>

definition search_subject :: "string \<Rightarrow> string option" where
  "search_subject asc =
     (case asc of
        [] \<Rightarrow> None
      | c # r \<Rightarrow> if c = CHR ''S'' \<and> takeWhile digit r \<noteq> [] then Some (c # takeWhile digit r)
                else None)"

text \<open>
  The body of the \<^verbatim>\<open>try\<close> for one row that passed the check of its identifier, with
  the handler: \<^verbatim>\<open>.group()\<close> raises when a search finds nothing, and \<^verbatim>\<open>add_trail\<close>
  raises when the recording cannot be read, after it has changed the subject.  The
  subject is made before \<^verbatim>\<open>add_trail\<close> is called and stays in \<^verbatim>\<open>self.subjects\<close>.
\<close>

definition parser_row ::
  "(string \<Rightarrow> dataframe option) \<Rightarrow> string \<Rightarrow> nat \<Rightarrow> nat \<Rightarrow> sheet_row
     \<Rightarrow> (string \<rightharpoonup> pedar_subject) \<times> event list \<Rightarrow> (string \<rightharpoonup> pedar_subject) \<times> event list" where
  "parser_row fs fld len idx r st =
     (case st of (subjects, evs) \<Rightarrow>
        (case search_condition (ident r) of
           None \<Rightarrow> (subjects, evs @ [FatalEntry idx])
         | Some condition \<Rightarrow>
        (case search_time (ident r) of
           None \<Rightarrow> (subjects, evs @ [FatalEntry idx])
         | Some time \<Rightarrow>
        (case search_subject (ident r) of
           None \<Rightarrow> (subjects, evs @ [FatalEntry idx])
         | Some subject_name \<Rightarrow>
             (let subject = (case subjects subject_name of
                               None \<Rightarrow> \<lparr>name = subject_name, folder = fld, trails = Map.empty\<rparr>
                             | Some s \<Rightarrow> s);
                  (subject', ev, err) =
                    add_trail fs subject (ident r) condition time (sideFoot r) (stance_cells r)
              in (subjects(subject_name \<mapsto> subject'),
                  evs @ ev @ (case err of
                                Some e \<Rightarrow> [FatalEntry idx]
                              | None \<Rightarrow> [Progress (Suc idx) len])))))))"

text \<open>
  \<^verbatim>\<open>for index in self.doc.index\<close>, the index counting the rows from 0.  A row whose
  identifier does not match is printed and ends the loop (\<^verbatim>\<open>break\<close>).
\<close>

fun parser_loop ::
  "(string \<Rightarrow> dataframe option) \<Rightarrow> string list \<Rightarrow> string \<Rightarrow> nat \<Rightarrow> nat \<Rightarrow> sheet_row list
     \<Rightarrow> (string \<rightharpoonup> pedar_subject) \<times> event list \<Rightarrow> (string \<rightharpoonup> pedar_subject) \<times> event list" where
  "parser_loop fs condition_list fld len idx [] st = st"
| "parser_loop fs condition_list fld len idx (r # rs) st =
     (if \<not> asc_match condition_list (ident r)
      then (fst st, snd st @ [InvalidAsc (ident r)])
      else parser_loop fs condition_list fld len (Suc idx) rs (parser_row fs fld len idx r st))"

text \<open>
  \<^verbatim>\<open>Trails_Parser.__init__\<close>, from the spreadsheet as read and the folder of its path:
  the subjects it leaves in \<^verbatim>\<open>self.subjects\<close> and the events.
\<close>

definition Trails_Parser ::
  "(string \<Rightarrow> dataframe option) \<Rightarrow> string list \<Rightarrow> string \<Rightarrow> sheet_row list
     \<Rightarrow> (string \<rightharpoonup> pedar_subject) \<times> event list" where
  "Trails_Parser fs condition_list fld sheet =
     parser_loop fs condition_list fld (length sheet) 0 sheet
       (Map.empty, [LoadingEntries (length sheet)])"

section \<open>Example inputs\<close>

text \<open>
  A recording of five samples with the columns 0 to 198, the same samples in an order
  that is not monotonic, and a spreadsheet for subject S1.
\<close>

definition example_doc :: dataframe where
  "example_doc = \<lparr>index = [5, 10, 15, 20, 25], columns = [0..198],
                   rows = replicate 5 (replicate 199 0)\<rparr>"

text \<open>The table of a recording whose file has the header lines and no data line.\<close>

definition empty_doc :: dataframe where
  "empty_doc = \<lparr>index = [], columns = [0..198], rows = []\<rparr>"

definition shuffled_doc :: dataframe where
  "shuffled_doc = \<lparr>index = [15, 5, 25, 10, 20], columns = [0..198],
                    rows = replicate 5 (replicate 199 0)\<rparr>"

definition example_fs :: "string \<Rightarrow> dataframe option" where
  "example_fs p =
     (if p = ''subjects/S1/S1 normal walking 1.asc'' then Some example_doc
      else if p = ''subjects/S1/S1 fast walking 1.asc'' then Some shuffled_doc
      else None)"

definition example_subject :: pedar_subject where
  "example_subject = \<lparr>name = ''S1'', folder = ''subjects'', trails = Map.empty\<rparr>"

text \<open>
  The condition list of the script, and three rows of a spreadsheet: the left foot of a
  trial, a row whose identifier names a condition that is not in the list, and the right
  foot of the trial.
\<close>

definition example_conditions :: "string list" where
  "example_conditions = [''fast walking'', ''slow walking'', ''normal walking'']"

definition row_left :: sheet_row where
  "row_left = \<lparr>ident = ''S1 normal walking 1'', sideFoot = ''L'',
                stance_cells = [PyStr ''10.0--20.0'', PyNaN]\<rparr>"

definition row_invalid :: sheet_row where
  "row_invalid = \<lparr>ident = ''S1 jogging 1'', sideFoot = ''L'',
                   stance_cells = [PyStr ''10.0--20.0'', PyNaN]\<rparr>"

definition row_right :: sheet_row where
  "row_right = \<lparr>ident = ''S1 normal walking 1'', sideFoot = ''R'',
                 stance_cells = [PyStr ''10.0--20.0'', PyNaN]\<rparr>"

section \<open>Arrays of export.py\<close>

text \<open>
  A numpy array of two dimensions: its shape and its rows.  A cell of a float array is a
  rational number, or \<open>None\<close> for a value that is not a finite number (\<^verbatim>\<open>inf\<close>,
  \<^verbatim>\<open>nan\<close>) or that was computed from one; rounding is left out.  numpy divides a float
  by zero without raising.
\<close>

record 'a ndarray =
  nrows :: nat
  ncols :: nat
  cells :: "'a list list"

type_synonym pyfloat = "rat option"

definition zeros :: "nat \<times> nat \<Rightarrow> pyfloat ndarray" where
  "zeros shp = \<lparr>nrows = fst shp, ncols = snd shp,
                 cells = replicate (fst shp) (replicate (snd shp) (Some 0))\<rparr>"

definition shape :: "'a ndarray \<Rightarrow> nat \<times> nat" where
  "shape a = (nrows a, ncols a)"

definition fadd :: "pyfloat \<Rightarrow> pyfloat \<Rightarrow> pyfloat" where
  "fadd x y = (case (x, y) of (Some a, Some b) \<Rightarrow> Some (a + b) | _ \<Rightarrow> None)"

definition fsub :: "pyfloat \<Rightarrow> pyfloat \<Rightarrow> pyfloat" where
  "fsub x y = (case (x, y) of (Some a, Some b) \<Rightarrow> Some (a - b) | _ \<Rightarrow> None)"

definition fmul :: "pyfloat \<Rightarrow> pyfloat \<Rightarrow> pyfloat" where
  "fmul x y = (case (x, y) of (Some a, Some b) \<Rightarrow> Some (a * b) | _ \<Rightarrow> None)"

definition fdiv :: "pyfloat \<Rightarrow> pyfloat \<Rightarrow> pyfloat" where
  "fdiv x y = (case (x, y) of (Some a, Some b) \<Rightarrow> if b = 0 then None else Some (a / b)
                            | _ \<Rightarrow> None)"

text \<open>
  \<^verbatim>\<open>a += b\<close> and its kin on arrays: \<open>b\<close> is broadcast to the shape of \<open>a\<close>, which
  numpy accepts when each dimension of \<open>b\<close> is that of \<open>a\<close> or is 1, and refuses with
  \<^verbatim>\<open>ValueError\<close> otherwise.  The result has the shape of \<open>a\<close>.
\<close>

definition broadcasts :: "'a ndarray \<Rightarrow> 'a ndarray \<Rightarrow> bool" where
  "broadcasts a b =
     ((nrows b = nrows a \<or> nrows b = 1) \<and> (ncols b = ncols a \<or> ncols b = 1))"

definition inplace :: "('a \<Rightarrow> 'a \<Rightarrow> 'a) \<Rightarrow> 'a ndarray \<Rightarrow> 'a ndarray \<Rightarrow> py_error + 'a ndarray" where
  "inplace f a b =
     (if broadcasts a b then
        Inr (a\<lparr>cells :=
               map (\<lambda>i. map (\<lambda>j. f (cells a ! i ! j)
                                     (cells b ! (if nrows b = 1 then 0 else i)
                                              ! (if ncols b = 1 then 0 else j)))
                          [0..<ncols a])
                   [0..<nrows a]\<rparr>)
      else Inl ValueError)"

text \<open>\<^verbatim>\<open>a *= val\<close> and \<^verbatim>\<open>a /= val\<close> for a number \<open>val\<close>.\<close>

definition inplace_scalar :: "('a \<Rightarrow> 'a \<Rightarrow> 'a) \<Rightarrow> 'a ndarray \<Rightarrow> 'a \<Rightarrow> 'a ndarray" where
  "inplace_scalar f a v = a\<lparr>cells := map (map (\<lambda>x. f x v)) (cells a)\<rparr>"

section \<open>FootHeatmap: the mask and the distribution\<close>

text \<open>
  The mask image as \<^verbatim>\<open>np.array(l_img)\<close> gives it: one pixel value for each
  coordinate.  \<^verbatim>\<open>ImageOps.mirror\<close> flips the image left to right.
  \<^verbatim>\<open>np.where(mask == v)\<close> lists the coordinates of the pixels of value \<open>v\<close>, row by
  row.
\<close>

definition mirror :: "nat ndarray \<Rightarrow> nat ndarray" where
  "mirror img = img\<lparr>cells := map rev (cells img)\<rparr>"

definition where_eq :: "nat ndarray \<Rightarrow> nat \<Rightarrow> (nat \<times> nat) list" where
  "where_eq msk v =
     concat (map (\<lambda>i. map (\<lambda>j. (i, j)) (filter (\<lambda>j. cells msk ! i ! j = v) [0..<ncols msk]))
                 [0..<nrows msk])"

text \<open>
  The class attributes that \<^verbatim>\<open>load_foot_mask\<close> sets.  Its loop runs over
  \<^verbatim>\<open>range(0, 198)\<close> and stores, for each \<open>n\<close>, the pixels of value \<open>n + 1\<close> of the left
  mask under the key \<open>n\<close> of \<^verbatim>\<open>l_index\<close> and those of the mirrored mask under the key
  \<open>n + 99\<close> of \<^verbatim>\<open>r_index\<close>.
\<close>

record foot_mask =
  l_shape :: "nat \<times> nat"
  r_shape :: "nat \<times> nat"
  l_index :: "int \<rightharpoonup> (nat \<times> nat) list"
  r_index :: "int \<rightharpoonup> (nat \<times> nat) list"

definition load_foot_mask :: "nat ndarray \<Rightarrow> foot_mask" where
  "load_foot_mask l_img =
     (let l_mask = l_img; r_mask = mirror l_img
      in foldl (\<lambda>cls n. cls\<lparr>l_index := (l_index cls)(int n \<mapsto> where_eq l_mask (n + 1)),
                             r_index := (r_index cls)(int n + 99 \<mapsto> where_eq r_mask (n + 1))\<rparr>)
           \<lparr>l_shape = shape l_mask, r_shape = shape r_mask,
            l_index = Map.empty, r_index = Map.empty\<rparr>
           [0..<198])"

text \<open>\<^verbatim>\<open>arr[coords] = v\<close>: the pixels listed get the value, the others keep theirs.\<close>

definition paint :: "'a ndarray \<Rightarrow> (nat \<times> nat) list \<Rightarrow> 'a \<Rightarrow> 'a ndarray" where
  "paint a coords v =
     a\<lparr>cells := map (\<lambda>i. map (\<lambda>j. if (i, j) \<in> set coords then v else cells a ! i ! j)
                               [0..<ncols a])
                    [0..<nrows a]\<rparr>"

text \<open>
  The two arrays of a \<^verbatim>\<open>FootHeatmap\<close> under construction.  The attribute series of
  the node is a list of channel labels with their values, the labels distinct, and
  \<^verbatim>\<open>series[n]\<close> is the value at the label \<open>n\<close>.  A missing attribute name and a channel
  that is no key of the index dictionary raise \<^verbatim>\<open>KeyError\<close>, which leaves the
  constructor.
\<close>

record foot_heatmap =
  l_pedar :: "pyfloat ndarray"
  r_pedar :: "pyfloat ndarray"

definition fill_channel :: "foot_mask \<Rightarrow> (int \<times> pyfloat) list \<Rightarrow> int \<Rightarrow> foot_heatmap
    \<Rightarrow> py_error + foot_heatmap" where
  "fill_channel cls series n self =
     (if n \<le> 99 then
        (case l_index cls n of
           None \<Rightarrow> Inl KeyError
         | Some coords \<Rightarrow>
             (case map_of series n of
                None \<Rightarrow> Inl KeyError
              | Some v \<Rightarrow> Inr (self\<lparr>l_pedar := paint (l_pedar self) coords v\<rparr>)))
      else
        (case r_index cls n of
           None \<Rightarrow> Inl KeyError
         | Some coords \<Rightarrow>
             (case map_of series n of
                None \<Rightarrow> Inl KeyError
              | Some v \<Rightarrow> Inr (self\<lparr>r_pedar := paint (r_pedar self) coords v\<rparr>))))"

fun fill_loop :: "foot_mask \<Rightarrow> (int \<times> pyfloat) list \<Rightarrow> int list \<Rightarrow> foot_heatmap
    \<Rightarrow> py_error + foot_heatmap" where
  "fill_loop cls series [] self = Inr self"
| "fill_loop cls series (n # ns) self =
     (case fill_channel cls series n self of
        Inl e \<Rightarrow> Inl e
      | Inr self' \<Rightarrow> fill_loop cls series ns self')"

definition fill_foot_heat_map ::
  "foot_mask \<Rightarrow> (string \<rightharpoonup> (int \<times> pyfloat) list) \<Rightarrow> string \<Rightarrow> py_error + foot_heatmap" where
  "fill_foot_heat_map cls attribute attr_name =
     (case attribute attr_name of
        None \<Rightarrow> Inl KeyError
      | Some series \<Rightarrow>
          fill_loop cls series (map fst series)
            \<lparr>l_pedar = zeros (l_shape cls), r_pedar = zeros (r_shape cls)\<rparr>)"

section \<open>FootHeatmap: arithmetic on objects\<close>

text \<open>
  The operators work on objects: \<^verbatim>\<open>copy.deepcopy(self)\<close> makes a new object with new
  arrays, and \<^verbatim>\<open>+=\<close> changes an array in place.  So the arrays and the objects live
  in a store.  An array is known by its position in \<open>arrays\<close>, a \<^verbatim>\<open>FootHeatmap\<close> by
  its position in \<open>objects\<close>, where it holds the positions of its \<^verbatim>\<open>l_pedar\<close> and its
  \<^verbatim>\<open>r_pedar\<close>.  Allocation appends.  In a well-formed store every object refers to
  arrays that exist.
\<close>

record heap =
  arrays :: "pyfloat ndarray list"
  objects :: "(nat \<times> nat) list"

definition wf_heap :: "heap \<Rightarrow> bool" where
  "wf_heap h = list_all (\<lambda>(l, r). l < length (arrays h) \<and> r < length (arrays h)) (objects h)"

definition l_grid :: "heap \<Rightarrow> nat \<Rightarrow> pyfloat ndarray" where
  "l_grid h obj = arrays h ! fst (objects h ! obj)"

definition r_grid :: "heap \<Rightarrow> nat \<Rightarrow> pyfloat ndarray" where
  "r_grid h obj = arrays h ! snd (objects h ! obj)"

text \<open>The object that the constructor leaves, with the two arrays it filled.\<close>

definition new_heatmap :: "heap \<Rightarrow> foot_heatmap \<Rightarrow> heap \<times> nat" where
  "new_heatmap h hm =
     (h\<lparr>arrays := arrays h @ [l_pedar hm, r_pedar hm],
        objects := objects h @ [(length (arrays h), Suc (length (arrays h)))]\<rparr>,
      length (objects h))"

text \<open>
  \<^verbatim>\<open>copy.deepcopy(self)\<close>: a new object, and a copy of each array it refers to; an
  array that both attributes refer to is copied once and stays shared in the copy.
\<close>

definition deepcopy :: "heap \<Rightarrow> nat \<Rightarrow> heap \<times> nat" where
  "deepcopy h self =
     (let (l, r) = objects h ! self; n = length (arrays h)
      in if l = r
         then (h\<lparr>arrays := arrays h @ [arrays h ! l], objects := objects h @ [(n, n)]\<rparr>,
               length (objects h))
         else (h\<lparr>arrays := arrays h @ [arrays h ! l, arrays h ! r],
                 objects := objects h @ [(n, Suc n)]\<rparr>,
               length (objects h)))"

text \<open>\<^verbatim>\<open>dst op= src\<close> on the arrays at two positions of the store.\<close>

definition inplace_at ::
  "(pyfloat \<Rightarrow> pyfloat \<Rightarrow> pyfloat) \<Rightarrow> heap \<Rightarrow> nat \<Rightarrow> nat \<Rightarrow> py_error + heap" where
  "inplace_at f h dst src =
     (case inplace f (arrays h ! dst) (arrays h ! src) of
        Inl e \<Rightarrow> Inl e
      | Inr a \<Rightarrow> Inr (h\<lparr>arrays := (arrays h)[dst := a]\<rparr>))"

definition inplace_scalar_at ::
  "(pyfloat \<Rightarrow> pyfloat \<Rightarrow> pyfloat) \<Rightarrow> heap \<Rightarrow> nat \<Rightarrow> pyfloat \<Rightarrow> heap" where
  "inplace_scalar_at f h dst v = h\<lparr>arrays := (arrays h)[dst := inplace_scalar f (arrays h ! dst) v]\<rparr>"

text \<open>
  \<^verbatim>\<open>__add__\<close> and \<^verbatim>\<open>__sub__\<close>: the copy, then the left arrays, then the right
  arrays.  An exception of the first or the second \<^verbatim>\<open>op=\<close> leaves the method; the copy
  made so far stays in the store, out of reach.
\<close>

definition hm_binary ::
  "(pyfloat \<Rightarrow> pyfloat \<Rightarrow> pyfloat) \<Rightarrow> heap \<Rightarrow> nat \<Rightarrow> nat \<Rightarrow> heap \<times> (py_error + nat)" where
  "hm_binary f h self other =
     (let (h1, new_hm) = deepcopy h self
      in case inplace_at f h1 (fst (objects h1 ! new_hm)) (fst (objects h1 ! other)) of
           Inl e \<Rightarrow> (h1, Inl e)
         | Inr h2 \<Rightarrow>
             (case inplace_at f h2 (snd (objects h2 ! new_hm)) (snd (objects h2 ! other)) of
                Inl e \<Rightarrow> (h2, Inl e)
              | Inr h3 \<Rightarrow> (h3, Inr new_hm)))"

definition hm_add :: "heap \<Rightarrow> nat \<Rightarrow> nat \<Rightarrow> heap \<times> (py_error + nat)" where
  "hm_add = hm_binary fadd"

definition hm_sub :: "heap \<Rightarrow> nat \<Rightarrow> nat \<Rightarrow> heap \<times> (py_error + nat)" where
  "hm_sub = hm_binary fsub"

text \<open>\<^verbatim>\<open>__mul__\<close> and \<^verbatim>\<open>__truediv__\<close> with a number.\<close>

definition hm_scalar ::
  "(pyfloat \<Rightarrow> pyfloat \<Rightarrow> pyfloat) \<Rightarrow> heap \<Rightarrow> nat \<Rightarrow> pyfloat \<Rightarrow> heap \<times> (py_error + nat)" where
  "hm_scalar f h self val =
     (let (h1, new_hm) = deepcopy h self;
          h2 = inplace_scalar_at f h1 (fst (objects h1 ! new_hm)) val;
          h3 = inplace_scalar_at f h2 (snd (objects h2 ! new_hm)) val
      in (h3, Inr new_hm))"

definition hm_mul :: "heap \<Rightarrow> nat \<Rightarrow> pyfloat \<Rightarrow> heap \<times> (py_error + nat)" where
  "hm_mul = hm_scalar fmul"

definition hm_truediv :: "heap \<Rightarrow> nat \<Rightarrow> pyfloat \<Rightarrow> heap \<times> (py_error + nat)" where
  "hm_truediv = hm_scalar fdiv"

text \<open>
  \<^verbatim>\<open>sum(hms[1:], start=hms[0])\<close>: the accumulator starts as the object \<^verbatim>\<open>hms[0]\<close>
  itself and is replaced by \<^verbatim>\<open>acc + x\<close> for each further \<open>x\<close>.
\<close>

fun hm_sum :: "heap \<Rightarrow> nat \<Rightarrow> nat list \<Rightarrow> heap \<times> (py_error + nat)" where
  "hm_sum h acc [] = (h, Inr acc)"
| "hm_sum h acc (x # xs) =
     (case hm_add h acc x of
        (h', Inl e) \<Rightarrow> (h', Inl e)
      | (h', Inr acc') \<Rightarrow> hm_sum h' acc' xs)"

text \<open>
  \<^verbatim>\<open>average(*hms)\<close>, which is \<^verbatim>\<open>sum(hms[1:], start=hms[0]) / len(hms)\<close>: without
  arguments \<^verbatim>\<open>hms[0]\<close> raises \<^verbatim>\<open>IndexError\<close>.
\<close>

definition average :: "heap \<Rightarrow> nat list \<Rightarrow> heap \<times> (py_error + nat)" where
  "average h hms =
     (case hms of
        [] \<Rightarrow> (h, Inl IndexError)
      | x # xs \<Rightarrow>
          (case hm_sum h x xs of
             (h', Inl e) \<Rightarrow> (h', Inl e)
           | (h', Inr acc) \<Rightarrow> hm_truediv h' acc (Some (of_nat (length hms)))))"

text \<open>
  Example masks and distributions: a mask of two rows with the regions 1, 2 and 100, a
  store with a distribution of shape 2 by 2 and one of shape 1 by 1.
\<close>

definition example_mask :: "nat ndarray" where
  "example_mask = \<lparr>nrows = 2, ncols = 3, cells = [[1, 1, 100], [0, 2, 2]]\<rparr>"

definition example_heap :: heap where
  "example_heap =
     \<lparr>arrays = [\<lparr>nrows = 2, ncols = 2, cells = [[Some 1, Some 2], [Some 3, Some 4]]\<rparr>,
                \<lparr>nrows = 2, ncols = 2, cells = [[Some 0, Some 0], [Some 0, Some 8]]\<rparr>,
                \<lparr>nrows = 1, ncols = 1, cells = [[Some 10]]\<rparr>,
                \<lparr>nrows = 1, ncols = 1, cells = [[Some 20]]\<rparr>],
      objects = [(0, 1), (2, 3)]\<rparr>"

text \<open>
  A later store extends an earlier one when every array and every object of the earlier
  store is there, at its position and with its content.
\<close>

definition heap_extends :: "heap \<Rightarrow> heap \<Rightarrow> bool" where
  "heap_extends h h' =
     (take (length (arrays h)) (arrays h') = arrays h
      \<and> take (length (objects h)) (objects h') = objects h)"

section \<open>Properties of id\_map\<close>

text \<open>
  C6.  For every sensor id from 1 to 99 the left foot maps to \<open>sensor_id - 1\<close> and the
  right foot to \<open>sensor_id + 98\<close>, nothing is printed, and the lower-case symbols give
  the same results as the upper-case ones.
\<close>

theorem id_map_channel:
  assumes "1 \<le> sensor_id" and "sensor_id \<le> 99"
  shows "id_map p ''L'' sensor_id = ([], Some (sensor_id - 1))
       \<and> id_map p ''R'' sensor_id = ([], Some (sensor_id + 98))
       \<and> id_map p ''l'' sensor_id = id_map p ''L'' sensor_id
       \<and> id_map p ''r'' sensor_id = id_map p ''R'' sensor_id"
  by (simp add: id_map_def)

theorem id_map_channel_witness:
  "(1::int) \<le> 42 \<and> (42::int) \<le> 99
   \<and> id_map ''S1/a.asc'' ''L'' 42 = ([], Some 41)
   \<and> id_map ''S1/a.asc'' ''R'' 42 = ([], Some 140)
   \<and> id_map ''S1/a.asc'' ''l'' 42 = ([], Some 41)
   \<and> id_map ''S1/a.asc'' ''r'' 42 = ([], Some 140)"
  using id_map_channel [of 42 "''S1/a.asc''"] by simp

text \<open>
  C1.  For a foot symbol other than \<open>L\<close>, \<open>l\<close>, \<open>R\<close>, \<open>r\<close> the method \<^verbatim>\<open>id_map\<close> prints the
  invalid-foot message for the recording and returns \<^verbatim>\<open>None\<close>, for every sensor id: no
  channel index comes out.  Nothing is raised (the code has no \<^verbatim>\<open>raise\<close> statement and
  no \<^verbatim>\<open>InvalidFootError\<close>), so the caller is not stopped: \<^verbatim>\<open>get_time_sensor_slice\<close>
  has the message printed twice and goes on to the lookup \<^verbatim>\<open>.loc\<close> with \<^verbatim>\<open>None\<close> in the
  place of both bounds of the column slice.
\<close>

theorem id_map_invalid_foot:
  assumes "foot \<notin> {''L'', ''l'', ''R'', ''r''}"
  shows "id_map p foot sensor_id = ([InvalidFoot p], None)
       \<and> get_time_sensor_slice self foot t0 t1 s0 s1
           = ([InvalidFoot (path self), InvalidFoot (path self)],
              loc_slice (doc self) (Some t0) (Some t1) None None)"
  using assms by (simp add: id_map_def get_time_sensor_slice_def)

theorem id_map_invalid_foot_witness:
  "''X'' \<notin> {''L'', ''l'', ''R'', ''r''}
   \<and> id_map ''S1/a.asc'' ''X'' 5 = ([InvalidFoot ''S1/a.asc''], None)
   \<and> get_time_sensor_slice \<lparr>path = ''S1/a.asc'', doc = example_doc\<rparr> ''X'' 10 20 1 99
       = ([InvalidFoot ''S1/a.asc'', InvalidFoot ''S1/a.asc''],
          loc_slice example_doc (Some 10) (Some 20) None None)"
  using id_map_invalid_foot
    [of "''X''" "''S1/a.asc''" 5 "\<lparr>path = ''S1/a.asc'', doc = example_doc\<rparr>" 10 20 1 99]
  by simp

section \<open>Label slices of an increasing index\<close>

lemma take_filter_le:
  "sorted xs \<Longrightarrow> take (length (filter (\<lambda>x. x \<le> hi) xs)) xs = filter (\<lambda>x. x \<le> (hi::'a::linorder)) xs"
proof (induction xs)
  case Nil
  then show ?case by simp
next
  case (Cons x xs)
  show ?case
  proof (cases "x \<le> hi")
    case True
    with Cons show ?thesis by simp
  next
    case False
    with Cons.prems have "\<forall>y\<in>set xs. \<not> y \<le> hi" by auto
    then have "filter (\<lambda>x. x \<le> hi) xs = []" by (simp add: filter_empty_conv)
    with False show ?thesis by simp
  qed
qed

lemma drop_filter_less:
  "sorted xs \<Longrightarrow> drop (length (filter (\<lambda>x. x < lo) xs)) xs = filter (\<lambda>x. (lo::'a::linorder) \<le> x) xs"
proof (induction xs)
  case Nil
  then show ?case by simp
next
  case (Cons x xs)
  show ?case
  proof (cases "x < lo")
    case True
    with Cons show ?thesis by simp
  next
    case False
    with Cons.prems have *: "\<forall>y\<in>set xs. \<not> y < lo" by auto
    then have "filter (\<lambda>x. x < lo) xs = []" by (simp add: filter_empty_conv)
    moreover from * have "filter (\<lambda>x. lo \<le> x) xs = xs" by (simp add: filter_id_conv not_less)
    ultimately show ?thesis using False by simp
  qed
qed

lemma py_slice_sorted:
  assumes "sorted (xs::'a::linorder list)"
  shows "py_slice (length (filter (\<lambda>x. x < lo) xs)) (length (filter (\<lambda>x. x \<le> hi) xs)) xs
         = filter (\<lambda>x. lo \<le> x \<and> x \<le> hi) xs"
proof -
  let ?ys = "filter (\<lambda>x. x \<le> hi) xs"
  have ys: "sorted ?ys" using assms by (simp add: sorted_wrt_filter)
  have t: "take (length ?ys) xs = ?ys" using assms by (rule take_filter_le)
  show ?thesis
  proof (cases "lo \<le> hi")
    case True
    have "filter (\<lambda>x. x < lo) ?ys = filter (\<lambda>x. x < lo) xs"
      using True by (auto intro: filter_cong)
    then have "drop (length (filter (\<lambda>x. x < lo) xs)) ?ys = filter (\<lambda>x. lo \<le> x) ?ys"
      using drop_filter_less [OF ys, of lo] by simp
    then show ?thesis by (simp add: py_slice_def t conj_commute)
  next
    case False
    then have "filter (\<lambda>x. lo \<le> x \<and> x \<le> hi) xs = []" by (auto simp: filter_empty_conv)
    moreover have "length ?ys \<le> length (filter (\<lambda>x. x < lo) xs)"
    proof -
      have "?ys = filter (\<lambda>x. x \<le> hi) (filter (\<lambda>x. x < lo) xs)"
        using False by (auto intro: filter_cong)
      then have "length ?ys = length (filter (\<lambda>x. x \<le> hi) (filter (\<lambda>x. x < lo) xs))" by simp
      also have "\<dots> \<le> length (filter (\<lambda>x. x < lo) xs)" by (rule length_filter_le)
      finally show ?thesis .
    qed
    ultimately show ?thesis by (simp add: py_slice_def t)
  qed
qed

lemma filter_range_upto:
  assumes "sorted (xs::int list)" and "distinct xs" and "{c0..c1} \<subseteq> set xs"
  shows "filter (\<lambda>c. c0 \<le> c \<and> c \<le> c1) xs = [c0..c1]"
proof (rule sorted_distinct_set_unique)
  show "sorted (filter (\<lambda>c. c0 \<le> c \<and> c \<le> c1) xs)" using assms(1) by (simp add: sorted_wrt_filter)
  show "distinct (filter (\<lambda>c. c0 \<le> c \<and> c \<le> c1) xs)" using assms(2) by simp
  show "sorted [c0..c1]" by simp
  show "distinct [c0..c1]" by simp
  show "set (filter (\<lambda>c. c0 \<le> c \<and> c \<le> c1) xs) = set [c0..c1]" using assms(3) by auto
qed


lemma slice_locs_sorted:
  "sorted (xs::'a::linorder list) \<Longrightarrow> xs \<noteq> [] \<Longrightarrow>
   slice_locs xs (Some lo) (Some hi)
     = Inr (length (filter (\<lambda>x. x < lo) xs), length (filter (\<lambda>x. x \<le> hi) xs))"
  by (simp add: slice_locs_def get_slice_bound_def)

text \<open>
  C7.  For a recognised foot, on a table whose time index is not empty and ascending and
  whose column labels are not empty and increasing, the slice has as its time index
  exactly the times of the table from \<open>t0\<close> to \<open>t1\<close>, both included, and as its columns
  exactly the column labels of the table from the channel of \<open>s0\<close> to the channel of
  \<open>s1\<close>, both included.  These are all the channels from that of \<open>s0\<close> to that of \<open>s1\<close>
  when the table has every one of them (with the columns 0 to 198 of a recording: every
  sensor range within 1 to 99); the sensor ids are not checked against the table, and a
  channel that the table does not have is left out.  Nothing is printed.  The orders
  \<open>t0 \<le> t1\<close> and \<open>s0 \<le> s1\<close> are not needed: the other way round the slice is empty.
\<close>

theorem get_time_sensor_slice_inclusive:
  assumes "foot \<in> {''L'', ''l'', ''R'', ''r''}"
    and "snd (id_map (path self) foot s0) = Some c0"
    and "snd (id_map (path self) foot s1) = Some c1"
    and "index (doc self) \<noteq> []" and "sorted (index (doc self))"
    and "columns (doc self) \<noteq> []" and "sorted (columns (doc self))"
  shows "\<exists>res. get_time_sensor_slice self foot t0 t1 s0 s1 = ([], Inr res)
           \<and> index res = filter (\<lambda>t. t0 \<le> t \<and> t \<le> t1) (index (doc self))
           \<and> columns res = filter (\<lambda>c. c0 \<le> c \<and> c \<le> c1) (columns (doc self))
           \<and> (distinct (columns (doc self)) \<and> {c0..c1} \<subseteq> set (columns (doc self))
                \<longrightarrow> columns res = [c0..c1])"
proof -
  from assms(1,2) have i0: "id_map (path self) foot s0 = ([], Some c0)"
    by (auto simp: id_map_def)
  from assms(1,3) have i1: "id_map (path self) foot s1 = ([], Some c1)"
    by (auto simp: id_map_def)
  have r: "py_slice (length (filter (\<lambda>x. x < t0) (index (doc self))))
             (length (filter (\<lambda>x. x \<le> t1) (index (doc self)))) (index (doc self))
           = filter (\<lambda>t. t0 \<le> t \<and> t \<le> t1) (index (doc self))"
    using assms(5) by (rule py_slice_sorted)
  have c: "py_slice (length (filter (\<lambda>x. x < c0) (columns (doc self))))
             (length (filter (\<lambda>x. x \<le> c1) (columns (doc self)))) (columns (doc self))
           = filter (\<lambda>c. c0 \<le> c \<and> c \<le> c1) (columns (doc self))"
    using assms(7) by (rule py_slice_sorted)
  have u: "distinct (columns (doc self)) \<and> {c0..c1} \<subseteq> set (columns (doc self))
           \<longrightarrow> filter (\<lambda>c. c0 \<le> c \<and> c \<le> c1) (columns (doc self)) = [c0..c1]"
    using filter_range_upto [OF assms(7)] by blast
  have g: "get_time_sensor_slice self foot t0 t1 s0 s1
           = ([], Inr \<lparr>index = filter (\<lambda>t. t0 \<le> t \<and> t \<le> t1) (index (doc self)),
                       columns = filter (\<lambda>c. c0 \<le> c \<and> c \<le> c1) (columns (doc self)),
                       rows = map (py_slice (length (filter (\<lambda>x. x < c0) (columns (doc self))))
                                     (length (filter (\<lambda>x. x \<le> c1) (columns (doc self)))))
                                (py_slice (length (filter (\<lambda>x. x < t0) (index (doc self))))
                                   (length (filter (\<lambda>x. x \<le> t1) (index (doc self))))
                                   (rows (doc self)))\<rparr>)"
    by (simp add: get_time_sensor_slice_def i0 i1 loc_slice_def
        slice_locs_sorted [OF assms(5,4)] slice_locs_sorted [OF assms(7,6)] r c)
  show ?thesis unfolding g using u by simp
qed

theorem get_time_sensor_slice_inclusive_witness:
  "''R'' \<in> {''L'', ''l'', ''R'', ''r''}
   \<and> snd (id_map (path \<lparr>path = ''subjects/S1/S1 normal walking 1.asc'', doc = example_doc\<rparr>)
          ''R'' 1) = Some 99
   \<and> snd (id_map (path \<lparr>path = ''subjects/S1/S1 normal walking 1.asc'', doc = example_doc\<rparr>)
          ''R'' 99) = Some 197
   \<and> index example_doc \<noteq> [] \<and> sorted (index example_doc)
   \<and> columns example_doc \<noteq> [] \<and> sorted (columns example_doc)
   \<and> distinct (columns example_doc) \<and> {99..197} \<subseteq> set (columns example_doc)
   \<and> (\<exists>res. get_time_sensor_slice
                \<lparr>path = ''subjects/S1/S1 normal walking 1.asc'', doc = example_doc\<rparr>
                ''R'' 10 20 1 99 = ([], Inr res)
           \<and> index res = [10, 15, 20]
           \<and> columns res = filter (\<lambda>c. 99 \<le> c \<and> c \<le> 197) (columns example_doc)
           \<and> columns res = [99..197])"
  using get_time_sensor_slice_inclusive
    [of "''R''" "\<lparr>path = ''subjects/S1/S1 normal walking 1.asc'', doc = example_doc\<rparr>"
        1 99 99 197 10 20]
  by (simp add: id_map_def example_doc_def)

text \<open>
  The claim C7 as the specification states it, for every pair of sensor ids and every
  table, fails on the recording of the examples at the sensor ids 50 and 150 of the right
  foot: their channels are 148 and 248, and the columns of the slice are those of the
  table from 148 on, which end at 198.  It fails also on the table of a recording without
  data lines, where the lookup raises \<^verbatim>\<open>TypeError\<close>.
\<close>

theorem get_time_sensor_slice_counterexample:
  "snd (id_map ''subjects/S1/S1 normal walking 1.asc'' ''R'' 50) = Some 148
   \<and> snd (id_map ''subjects/S1/S1 normal walking 1.asc'' ''R'' 150) = Some 248
   \<and> get_time_sensor_slice
         \<lparr>path = ''subjects/S1/S1 normal walking 1.asc'', doc = example_doc\<rparr> ''R'' 10 20 50 150
       = ([], Inr \<lparr>index = [10, 15, 20], columns = [148..198],
                   rows = replicate 3 (replicate 51 0)\<rparr>)
   \<and> [148..198] \<noteq> [148..248::int]
   \<and> get_time_sensor_slice
         \<lparr>path = ''subjects/S1/S1 normal walking 1.asc'', doc = empty_doc\<rparr> ''L'' 10 20 1 99
       = ([], Inl TypeError)"
proof -
  have f1: "filter (\<lambda>x. x < (148::int)) [0..198] = [0..147]"
  proof (rule sorted_distinct_set_unique)
    show "sorted (filter (\<lambda>x. x < (148::int)) [0..198])" by (simp add: sorted_wrt_filter)
    show "set (filter (\<lambda>x. x < (148::int)) [0..198]) = set [0..147]" by auto
  qed simp_all
  have f2: "filter (\<lambda>x. x \<le> (248::int)) [0..198] = [0..198]"
    by (simp add: filter_id_conv)
  have f3: "filter (\<lambda>x. (148::int) \<le> x \<and> x \<le> 248) [0..198] = [148..198]"
  proof (rule sorted_distinct_set_unique)
    show "sorted (filter (\<lambda>x. (148::int) \<le> x \<and> x \<le> 248) [0..198])"
      by (simp add: sorted_wrt_filter)
    show "set (filter (\<lambda>x. (148::int) \<le> x \<and> x \<le> 248) [0..198]) = set [148..198]"
      by (simp only: set_filter set_upto) auto
  qed simp_all
  have c: "slice_locs [0..198::int] (Some 148) (Some 248) = Inr (148, 199)"
    by (simp add: slice_locs_sorted f1 f2)
  have d: "py_slice 148 199 [0..198::int] = [148..198]"
    using py_slice_sorted [of "[0..198::int]" 148 248] by (simp add: f1 f2 f3)
  have r: "slice_locs [5, 10, 15, 20, 25::rat] (Some 10) (Some 20) = Inr (1, 4)"
    by (simp add: slice_locs_sorted)
  have a: "get_time_sensor_slice
             \<lparr>path = ''subjects/S1/S1 normal walking 1.asc'', doc = example_doc\<rparr> ''R'' 10 20 50 150
           = ([], Inr \<lparr>index = [10, 15, 20], columns = [148..198],
                       rows = replicate 3 (replicate 51 0)\<rparr>)"
    by (simp add: get_time_sensor_slice_def id_map_def loc_slice_def example_doc_def c r d)
      (simp add: py_slice_def)
  have n: "[148..198] \<noteq> [148..248::int]"
  proof
    assume "[148..198] = [148..248::int]"
    then have "length [148..198] = length [148..248::int]" by (rule arg_cong)
    then show False by simp
  qed
  have e: "get_time_sensor_slice
             \<lparr>path = ''subjects/S1/S1 normal walking 1.asc'', doc = empty_doc\<rparr> ''L'' 10 20 1 99
           = ([], Inl TypeError)"
    by (simp add: get_time_sensor_slice_def id_map_def loc_slice_def slice_locs_def
        get_slice_bound_def empty_doc_def)
  show ?thesis using a n e by (simp add: id_map_def)
qed

text \<open>
  The claim C1 as the specification states it fails at the foot symbol \<open>X\<close>: the lookup
  of the channel returns \<^verbatim>\<open>None\<close> and raises nothing, and the slice of the recording
  of the examples for this foot is returned, with every column of the table, where the
  claim has the lookup fail without a result that could be used.
\<close>

theorem id_map_invalid_foot_counterexample:
  "id_map ''subjects/S1/S1 normal walking 1.asc'' ''X'' 1
     = ([InvalidFoot ''subjects/S1/S1 normal walking 1.asc''], None)
   \<and> get_time_sensor_slice
         \<lparr>path = ''subjects/S1/S1 normal walking 1.asc'', doc = example_doc\<rparr> ''X'' 10 20 1 99
       = ([InvalidFoot ''subjects/S1/S1 normal walking 1.asc'',
           InvalidFoot ''subjects/S1/S1 normal walking 1.asc''],
          Inr \<lparr>index = [10, 15, 20], columns = [0..198],
               rows = replicate 3 (replicate 199 0)\<rparr>)"
proof -
  have r: "slice_locs [5, 10, 15, 20, 25::rat] (Some 10) (Some 20) = Inr (1, 4)"
    by (simp add: slice_locs_sorted)
  have c: "slice_locs [0..198::int] None None = Inr (0, 199)"
    by (simp add: slice_locs_def)
  show ?thesis
    by (simp add: get_time_sensor_slice_def id_map_def loc_slice_def example_doc_def r c
        py_slice_def)
qed

section \<open>The keys of a foot's dictionary\<close>

lemma digit_cases: "n < 10 \<Longrightarrow> n \<in> {0, 1, 2, 3, 4, 5, 6, 7, 8, 9::nat}"
  by auto

lemma digit_of_digit: "n < 10 \<Longrightarrow> digit (digit_of n)"
  using digit_cases [of n] by (auto simp: digit_def digit_of_def)

lemma digit_of_inj: "n < 10 \<Longrightarrow> m < 10 \<Longrightarrow> digit_of n = digit_of m \<Longrightarrow> n = m"
  using digit_cases [of n] digit_cases [of m] by (auto simp: digit_of_def)

lemma show_nat_digits: "c \<in> set (show_nat n) \<Longrightarrow> digit c"
proof (induction n rule: show_nat.induct)
  case (1 n)
  show ?case
  proof (cases "n < 10")
    case True
    with "1.prems" show ?thesis by (simp add: show_nat.simps [of n] digit_of_digit)
  next
    case False
    with "1.prems" "1.IH" show ?thesis
      by (auto simp: show_nat.simps [of n] digit_of_digit)
  qed
qed

lemma show_nat_nonempty: "show_nat n \<noteq> []"
  by (subst show_nat.simps) simp

lemma show_nat_inj: "show_nat n = show_nat m \<Longrightarrow> n = m"
proof (induction n arbitrary: m rule: show_nat.induct)
  case (1 n)
  show ?case
  proof (cases "n < 10")
    case n: True
    show ?thesis
    proof (cases "m < 10")
      case True
      with n "1.prems" show ?thesis
        by (simp add: show_nat.simps [of n] show_nat.simps [of m] digit_of_inj)
    next
      case False
      with n "1.prems" show ?thesis
        using show_nat_nonempty [of "m div 10"]
        by (simp add: show_nat.simps [of n] show_nat.simps [of m])
    qed
  next
    case n: False
    show ?thesis
    proof (cases "m < 10")
      case True
      with n "1.prems" show ?thesis
        using show_nat_nonempty [of "n div 10"]
        by (simp add: show_nat.simps [of n] show_nat.simps [of m])
    next
      case False
      with n "1.prems" have "show_nat (n div 10) = show_nat (m div 10)"
        and d: "digit_of (n mod 10) = digit_of (m mod 10)"
        by (simp_all add: show_nat.simps [of n] show_nat.simps [of m])
      with n "1.IH" have "n div 10 = m div 10" by simp
      moreover from d have "n mod 10 = m mod 10" by (simp add: digit_of_inj)
      ultimately show ?thesis by (metis div_mult_mod_eq)
    qed
  qed
qed

lemma not_digit_underscore: "\<not> digit (CHR ''_'')"
  by (simp add: digit_def)

lemma key_slice_start: "show_nat i \<noteq> show_nat j @ ''_start''"
proof
  assume "show_nat i = show_nat j @ ''_start''"
  then have "CHR ''_'' \<in> set (show_nat i)" by simp
  then show False using show_nat_digits not_digit_underscore by blast
qed

lemma key_slice_end: "show_nat i \<noteq> show_nat j @ ''_end''"
proof
  assume "show_nat i = show_nat j @ ''_end''"
  then have "CHR ''_'' \<in> set (show_nat i)" by simp
  then show False using show_nat_digits not_digit_underscore by blast
qed

lemma key_start_end: "show_nat i @ ''_start'' \<noteq> show_nat j @ ''_end''"
proof
  assume "show_nat i @ ''_start'' = show_nat j @ ''_end''"
  then have "last (show_nat i @ ''_start'') = last (show_nat j @ ''_end'')" by simp
  then show False by simp
qed

lemma key_start_inj: "show_nat i @ ''_start'' = show_nat j @ ''_start'' \<longleftrightarrow> i = j"
  using show_nat_inj by auto

lemma key_end_inj: "show_nat i @ ''_end'' = show_nat j @ ''_end'' \<longleftrightarrow> i = j"
  using show_nat_inj by auto

lemma key_slice_inj: "show_nat i = show_nat j \<longleftrightarrow> i = j"
  using show_nat_inj by auto

lemmas keys_distinct =
  key_slice_start key_slice_end key_start_end
  key_slice_start [symmetric] key_slice_end [symmetric] key_start_end [symmetric]
  key_start_inj key_end_inj key_slice_inj

section \<open>The stance loop\<close>

lemma add_trail_stance_unparsed:
  assumes "isl (stance_start s) \<or> isl (stance_end s)"
  shows "add_trail_stance nm c t foot asc idx (PyStr s) (node, evs)
           = (node, evs @ [FatalStance nm c t foot s])"
  using assms by (auto split: sum.splits)

lemma add_trail_stance_slice_raises:
  assumes "stance_start s = Inr a" and "stance_end s = Inr b"
    and "get_time_sensor_slice asc foot a b 1 99 = (ev, Inl e)"
  shows "add_trail_stance nm c t foot asc idx (PyStr s) (node, evs)
           = (node(show_nat idx @ ''_start'' \<mapsto> Scalar a, show_nat idx @ ''_end'' \<mapsto> Scalar b),
              evs @ ev @ [FatalStance nm c t foot s])"
  using assms by simp

lemma add_trail_stance_stored:
  assumes "stance_start s = Inr a" and "stance_end s = Inr b"
    and "get_time_sensor_slice asc foot a b 1 99 = (ev, Inr sl)"
  shows "add_trail_stance nm c t foot asc idx (PyStr s) (node, evs)
           = (node(show_nat idx @ ''_start'' \<mapsto> Scalar a, show_nat idx @ ''_end'' \<mapsto> Scalar b,
                   show_nat idx \<mapsto> Slice sl),
              evs @ ev)"
  using assms by simp

lemma add_trail_stance_other:
  assumes "j \<noteq> k"
  shows "fst (add_trail_stance nm c t foot asc j x st) (show_nat k) = fst st (show_nat k)
       \<and> fst (add_trail_stance nm c t foot asc j x st) (show_nat k @ ''_start'')
           = fst st (show_nat k @ ''_start'')
       \<and> fst (add_trail_stance nm c t foot asc j x st) (show_nat k @ ''_end'')
           = fst st (show_nat k @ ''_end'')"
proof (cases st)
  case (Pair node evs)
  show ?thesis
  proof (cases x)
    case (PyStr s)
    show ?thesis
    proof (cases "isl (stance_start s) \<or> isl (stance_end s)")
      case True
      then show ?thesis
        unfolding Pair PyStr by (simp only: add_trail_stance_unparsed fst_conv simp_thms)
    next
      case False
      then obtain a b where ab: "stance_start s = Inr a" "stance_end s = Inr b"
        by (cases "stance_start s"; cases "stance_end s") auto
      obtain ev r where g: "get_time_sensor_slice asc foot a b 1 99 = (ev, r)"
        by (cases "get_time_sensor_slice asc foot a b 1 99")
      show ?thesis
      proof (cases r)
        case (Inl e)
        with ab g assms show ?thesis
          unfolding Pair PyStr
          by (simp only: add_trail_stance_slice_raises) (simp add: keys_distinct)
      next
        case (Inr sl)
        with ab g assms show ?thesis
          unfolding Pair PyStr
          by (simp only: add_trail_stance_stored) (simp add: keys_distinct)
      qed
    qed
  qed (simp_all add: Pair)
qed

lemma add_trail_loop_other:
  assumes "k < idx \<or> idx + length xs \<le> k"
  shows "fst (add_trail_loop nm c t foot asc idx xs st) (show_nat k) = fst st (show_nat k)
       \<and> fst (add_trail_loop nm c t foot asc idx xs st) (show_nat k @ ''_start'')
           = fst st (show_nat k @ ''_start'')
       \<and> fst (add_trail_loop nm c t foot asc idx xs st) (show_nat k @ ''_end'')
           = fst st (show_nat k @ ''_end'')"
  using assms
proof (induction xs arbitrary: idx st)
  case Nil
  then show ?case by simp
next
  case (Cons x xs)
  from Cons.prems have ne: "idx \<noteq> k" and nx: "k < Suc idx \<or> Suc idx + length xs \<le> k" by auto
  show ?case
    using Cons.IH [OF nx, of "add_trail_stance nm c t foot asc idx x st"]
      add_trail_stance_other [OF ne, of nm c t foot asc x st]
    by simp
qed

lemma add_trail_loop_append:
  "add_trail_loop nm c t foot asc idx (xs @ ys) st
     = add_trail_loop nm c t foot asc (idx + length xs) ys (add_trail_loop nm c t foot asc idx xs st)"
  by (induction xs arbitrary: idx st) simp_all

lemma add_trail_loop_split:
  assumes "i < length xs"
  shows "add_trail_loop nm c t foot asc idx xs st
           = add_trail_loop nm c t foot asc (Suc (idx + i)) (drop (Suc i) xs)
               (add_trail_stance nm c t foot asc (idx + i) (xs ! i)
                  (add_trail_loop nm c t foot asc idx (take i xs) st))"
proof -
  have "xs = take i xs @ xs ! i # drop (Suc i) xs"
    using assms by (rule id_take_nth_drop)
  then have "add_trail_loop nm c t foot asc idx xs st
      = add_trail_loop nm c t foot asc idx (take i xs @ xs ! i # drop (Suc i) xs) st"
    by simp
  also have "\<dots> = add_trail_loop nm c t foot asc (Suc (idx + i)) (drop (Suc i) xs)
               (add_trail_stance nm c t foot asc (idx + i) (xs ! i)
                  (add_trail_loop nm c t foot asc idx (take i xs) st))"
    using assms by (simp add: add_trail_loop_append min_def)
  finally show ?thesis .
qed

lemma add_trail_loop_slice_raises:
  assumes i: "i < length xs" and x: "xs ! i = PyStr s"
    and a: "stance_start s = Inr a" and b: "stance_end s = Inr b"
    and g: "snd (get_time_sensor_slice asc foot a b 1 99) = Inl e"
    and n: "fst st (show_nat (idx + i)) = None"
  shows "fst (add_trail_loop nm c t foot asc idx xs st) (show_nat (idx + i) @ ''_start'') = Some (Scalar a)
       \<and> fst (add_trail_loop nm c t foot asc idx xs st) (show_nat (idx + i) @ ''_end'') = Some (Scalar b)
       \<and> fst (add_trail_loop nm c t foot asc idx xs st) (show_nat (idx + i)) = None"
proof -
  let ?k = "idx + i"
  obtain node1 evs1 where s1: "add_trail_loop nm c t foot asc idx (take i xs) st = (node1, evs1)"
    by (cases "add_trail_loop nm c t foot asc idx (take i xs) st")
  have "idx + length (take i xs) \<le> ?k" using i by simp
  then have "fst (add_trail_loop nm c t foot asc idx (take i xs) st) (show_nat ?k) = fst st (show_nat ?k)"
    using add_trail_loop_other [of ?k idx "take i xs" nm c t foot asc st] by blast
  with n s1 have n1: "node1 (show_nat ?k) = None" by simp
  obtain ev where g': "get_time_sensor_slice asc foot a b 1 99 = (ev, Inl e)"
    using g by (cases "get_time_sensor_slice asc foot a b 1 99") simp
  let ?st2 = "add_trail_stance nm c t foot asc ?k (xs ! i) (node1, evs1)"
  have s2: "?st2 = (node1(show_nat ?k @ ''_start'' \<mapsto> Scalar a, show_nat ?k @ ''_end'' \<mapsto> Scalar b),
                    evs1 @ ev @ [FatalStance nm c t foot s])"
    unfolding x using a b g' by (rule add_trail_stance_slice_raises)
  have k2: "fst ?st2 (show_nat ?k @ ''_start'') = Some (Scalar a)"
           "fst ?st2 (show_nat ?k @ ''_end'') = Some (Scalar b)"
           "fst ?st2 (show_nat ?k) = None"
    using n1 by (simp_all add: s2 keys_distinct)
  have split: "add_trail_loop nm c t foot asc idx xs st
           = add_trail_loop nm c t foot asc (Suc ?k) (drop (Suc i) xs) ?st2"
    using add_trail_loop_split [OF i, of nm c t foot asc idx st] s1 by simp
  have "?k < Suc ?k \<or> Suc ?k + length (drop (Suc i) xs) \<le> ?k" by simp
  from add_trail_loop_other [OF this, of nm c t foot asc ?st2] k2
  show ?thesis unfolding split by simp
qed

lemma add_trail_loaded:
  assumes "p = folder self @ ''/'' @ name self @ ''/'' @ asc @ ''.asc''"
    and "fs p = Some df"
    and "add_trail_loop (name self) c t foot \<lparr>path = p, doc = df\<rparr> 0 stances
           (Map.empty, [ReadCsv p]) = (node, evs)"
    and "by_time = (case trails self c of None \<Rightarrow> Map.empty | Some d \<Rightarrow> d)"
    and "trial = (case by_time t of None \<Rightarrow> Map.empty | Some d \<Rightarrow> d)"
  shows "add_trail fs self asc c t foot stances
           = (self\<lparr>trails := (trails self)(c \<mapsto> by_time(t \<mapsto>
                 trial(''asc'' \<mapsto> Asc \<lparr>path = p, doc = df\<rparr>, foot \<mapsto> Foot node)))\<rparr>,
              evs, None)"
  using assms by (simp add: add_trail_def Pedar_asc_def Let_def)


section \<open>Evaluation of the examples\<close>

lemmas stance_defs =
  stance_start_def stance_end_def search_start_def search_end_def strip_final_newline_def
  numchar_def digit_def py_float_def strip_def py_space_def dec_def

lemma show_nat_0: "show_nat 0 = ''0''"
  by (simp add: show_nat.simps [of 0] digit_of_def)

lemma shuffled_raises:
  "get_time_sensor_slice \<lparr>path = p, doc = shuffled_doc\<rparr> ''L'' 12 22 1 99 = ([], Inl KeyError)"
  by (simp add: get_time_sensor_slice_def id_map_def loc_slice_def slice_locs_def
      get_slice_bound_def adjacent_def shuffled_doc_def)

section \<open>A stance whose slice raises\<close>

text \<open>
  C10.  A pass of the loop is not atomic.  When the recording was read, and the stance
  at index \<open>i\<close> is a string whose two bounds are read but for which taking the slice
  raises, \<^verbatim>\<open>add_trail\<close> returns normally and the dictionary of the foot, at the end of
  the call, holds \<open>i_start\<close> and \<open>i_end\<close> with the two bounds and has no key \<open>i\<close>:
  what was stored before the exception is not taken back, whatever the other stances.
\<close>

theorem add_trail_slice_raises_partial:
  assumes "fs (folder self @ ''/'' @ name self @ ''/'' @ asc @ ''.asc'') = Some df"
    and "i < length stances" and "stances ! i = PyStr s"
    and "stance_start s = Inr a" and "stance_end s = Inr b"
    and "snd (get_time_sensor_slice
               \<lparr>path = folder self @ ''/'' @ name self @ ''/'' @ asc @ ''.asc'', doc = df\<rparr>
               foot a b 1 99) = Inl e"
  shows "\<exists>self' evs node.
           add_trail fs self asc c t foot stances = (self', evs, None)
         \<and> trail_lookup self' c t foot = Some (Foot node)
         \<and> node (show_nat i @ ''_start'') = Some (Scalar a)
         \<and> node (show_nat i @ ''_end'') = Some (Scalar b)
         \<and> node (show_nat i) = None"
proof -
  define p where "p = folder self @ ''/'' @ name self @ ''/'' @ asc @ ''.asc''"
  define by_time where "by_time = (case trails self c of None \<Rightarrow> Map.empty | Some d \<Rightarrow> d)"
  define trial where "trial = (case by_time t of None \<Rightarrow> Map.empty | Some d \<Rightarrow> d)"
  obtain node evs where
    l: "add_trail_loop (name self) c t foot \<lparr>path = p, doc = df\<rparr> 0 stances (Map.empty, [ReadCsv p])
          = (node, evs)"
    by (cases "add_trail_loop (name self) c t foot \<lparr>path = p, doc = df\<rparr> 0 stances
                 (Map.empty, [ReadCsv p])")
  have g: "snd (get_time_sensor_slice \<lparr>path = p, doc = df\<rparr> foot a b 1 99) = Inl e"
    using assms(6) by (simp add: p_def)
  have "fst (Map.empty :: foot_node, [ReadCsv p]) (show_nat (0 + i)) = None" by simp
  from add_trail_loop_slice_raises [OF assms(2-5) g this, of "name self" c t] l
  have k: "node (show_nat i @ ''_start'') = Some (Scalar a)"
      "node (show_nat i @ ''_end'') = Some (Scalar b)" "node (show_nat i) = None"
    by simp_all
  have f: "fs p = Some df" using assms(1) by (simp add: p_def)
  have r: "add_trail fs self asc c t foot stances
           = (self\<lparr>trails := (trails self)(c \<mapsto> by_time(t \<mapsto>
                 trial(''asc'' \<mapsto> Asc \<lparr>path = p, doc = df\<rparr>, foot \<mapsto> Foot node)))\<rparr>,
              evs, None)"
    using p_def f l by_time_def trial_def by (rule add_trail_loaded)
  show ?thesis
  proof (intro exI conjI)
    show "add_trail fs self asc c t foot stances
           = (self\<lparr>trails := (trails self)(c \<mapsto> by_time(t \<mapsto>
                 trial(''asc'' \<mapsto> Asc \<lparr>path = p, doc = df\<rparr>, foot \<mapsto> Foot node)))\<rparr>,
              evs, None)"
      by (rule r)
    show "trail_lookup (self\<lparr>trails := (trails self)(c \<mapsto> by_time(t \<mapsto>
                 trial(''asc'' \<mapsto> Asc \<lparr>path = p, doc = df\<rparr>, foot \<mapsto> Foot node)))\<rparr>) c t foot
          = Some (Foot node)"
      by (simp add: trail_lookup_def)
  qed (rule k)+
qed

theorem add_trail_slice_raises_partial_witness:
  "example_fs (folder example_subject @ ''/'' @ name example_subject @ ''/''
       @ ''S1 fast walking 1'' @ ''.asc'') = Some shuffled_doc
   \<and> (0::nat) < length [PyStr ''12.0--22.0'']
   \<and> [PyStr ''12.0--22.0''] ! 0 = PyStr ''12.0--22.0''
   \<and> stance_start ''12.0--22.0'' = Inr 12 \<and> stance_end ''12.0--22.0'' = Inr 22
   \<and> snd (get_time_sensor_slice
            \<lparr>path = folder example_subject @ ''/'' @ name example_subject @ ''/''
                  @ ''S1 fast walking 1'' @ ''.asc'', doc = shuffled_doc\<rparr>
            ''L'' 12 22 1 99) = Inl KeyError
   \<and> (\<exists>self' evs node.
           add_trail example_fs example_subject ''S1 fast walking 1'' ''fast walking'' ''1'' ''L''
             [PyStr ''12.0--22.0''] = (self', evs, None)
         \<and> trail_lookup self' ''fast walking'' ''1'' ''L'' = Some (Foot node)
         \<and> node ''0_start'' = Some (Scalar 12)
         \<and> node ''0_end'' = Some (Scalar 22)
         \<and> node ''0'' = None)"
proof -
  have h1: "example_fs (folder example_subject @ ''/'' @ name example_subject @ ''/''
       @ ''S1 fast walking 1'' @ ''.asc'') = Some shuffled_doc"
    by (simp add: example_fs_def example_subject_def)
  have h2: "(0::nat) < length [PyStr ''12.0--22.0'']" by simp
  have h3: "[PyStr ''12.0--22.0''] ! 0 = PyStr ''12.0--22.0''" by simp
  have h4: "stance_start ''12.0--22.0'' = Inr 12" by (simp add: stance_defs)
  have h5: "stance_end ''12.0--22.0'' = Inr 22" by (simp add: stance_defs)
  have h6: "snd (get_time_sensor_slice
            \<lparr>path = folder example_subject @ ''/'' @ name example_subject @ ''/''
                  @ ''S1 fast walking 1'' @ ''.asc'', doc = shuffled_doc\<rparr>
            ''L'' 12 22 1 99) = Inl KeyError"
    by (simp add: shuffled_raises)
  from add_trail_slice_raises_partial
    [of example_fs example_subject "''S1 fast walking 1''" shuffled_doc 0 "[PyStr ''12.0--22.0'']"
        "''12.0--22.0''" 12 22 "''L''" KeyError "''fast walking''" "''1''", OF h1 h2 h3 h4 h5 h6]
  show ?thesis using h1 h2 h3 h4 h5 h6 by (simp add: show_nat_0)
qed

section \<open>A stance that is skipped\<close>

lemma add_trail_stance_failing:
  assumes "case x of PyStr s \<Rightarrow> isl (stance_start s) \<or> isl (stance_end s) | _ \<Rightarrow> True"
  shows "add_trail_stance nm c t foot asc idx x (node, evs)
           = (node, evs @ (case x of PyStr s \<Rightarrow> [FatalStance nm c t foot s] | _ \<Rightarrow> []))"
proof (cases x)
  case (PyStr s)
  with assms have "isl (stance_start s) \<or> isl (stance_end s)" by simp
  then show ?thesis unfolding PyStr by (simp only: add_trail_stance_unparsed pyval.case)
qed simp_all

lemma show_nat_small: "n < 10 \<Longrightarrow> show_nat n = [digit_of n]"
  by (subst show_nat.simps) simp

lemma filter_le_upto: "filter (\<lambda>x. x \<le> (98::int)) [0..198] = [0..98]"
proof (rule sorted_distinct_set_unique)
  show "sorted (filter (\<lambda>x. x \<le> (98::int)) [0..198])" by (simp add: sorted_wrt_filter)
  show "set (filter (\<lambda>x. x \<le> (98::int)) [0..198]) = set [0..98]" by auto
qed simp_all

lemma filter_less_upto: "filter (\<lambda>x. x < (0::int)) [0..198] = []"
  by (auto simp: filter_empty_conv)

lemma take_upto: "take 99 [0..198::int] = [0..98]"
proof -
  have "take (length (filter (\<lambda>x. x \<le> (98::int)) [0..198])) [0..198]
          = filter (\<lambda>x. x \<le> (98::int)) [0..198]"
    by (rule take_filter_le) simp
  then show ?thesis by (simp add: filter_le_upto)
qed

lemma example_slice:
  "get_time_sensor_slice \<lparr>path = p, doc = example_doc\<rparr> ''L'' 10 20 1 99
     = ([], Inr \<lparr>index = [10, 15, 20], columns = [0..98],
                 rows = replicate 3 (replicate 99 0)\<rparr>)"
proof -
  have c: "slice_locs [0..198::int] (Some 0) (Some 98) = Inr (0, 99)"
    by (simp add: slice_locs_sorted filter_le_upto filter_less_upto)
  have r: "slice_locs [5, 10, 15, 20, 25::rat] (Some 10) (Some 20) = Inr (1, 4)"
    by (simp add: slice_locs_sorted)
  show ?thesis
    by (simp add: get_time_sensor_slice_def id_map_def loc_slice_def example_doc_def c r
        py_slice_def take_upto)
qed

text \<open>
  C4.  When the recording was read and the stance \<open>x\<close> is not a string, or is a string
  of which the start or the end cannot be read, \<^verbatim>\<open>add_trail\<close> on the stances
  \<open>pre @ x # post\<close> returns normally, and what it leaves is what the stances \<open>pre\<close>
  leave, then nothing from \<open>x\<close> but one printed line when \<open>x\<close> is a string (with the
  subject, the condition, the time, the foot and the string itself), then what the
  stances \<open>post\<close> add at their own indices.  The failing stance changes no entry of
  the foot's dictionary and does not end the call.
\<close>

theorem add_trail_failing_stance:
  assumes "fs (folder self @ ''/'' @ name self @ ''/'' @ asc @ ''.asc'') = Some df"
    and "case x of PyStr s \<Rightarrow> isl (stance_start s) \<or> isl (stance_end s) | _ \<Rightarrow> True"
  shows "\<exists>self' node evs node' evs'.
           add_trail_loop (name self) c t foot
             \<lparr>path = folder self @ ''/'' @ name self @ ''/'' @ asc @ ''.asc'', doc = df\<rparr> 0 pre
             (Map.empty, [ReadCsv (folder self @ ''/'' @ name self @ ''/'' @ asc @ ''.asc'')])
             = (node, evs)
         \<and> add_trail_loop (name self) c t foot
             \<lparr>path = folder self @ ''/'' @ name self @ ''/'' @ asc @ ''.asc'', doc = df\<rparr>
             (Suc (length pre)) post
             (node, evs @ (case x of PyStr s \<Rightarrow> [FatalStance (name self) c t foot s] | _ \<Rightarrow> []))
             = (node', evs')
         \<and> add_trail fs self asc c t foot (pre @ x # post) = (self', evs', None)
         \<and> trail_lookup self' c t foot = Some (Foot node')"
proof -
  define p where "p = folder self @ ''/'' @ name self @ ''/'' @ asc @ ''.asc''"
  define by_time where "by_time = (case trails self c of None \<Rightarrow> Map.empty | Some d \<Rightarrow> d)"
  define trial where "trial = (case by_time t of None \<Rightarrow> Map.empty | Some d \<Rightarrow> d)"
  let ?asc = "\<lparr>path = p, doc = df\<rparr>"
  obtain node evs where
    l1: "add_trail_loop (name self) c t foot ?asc 0 pre (Map.empty, [ReadCsv p]) = (node, evs)"
    by (cases "add_trail_loop (name self) c t foot ?asc 0 pre (Map.empty, [ReadCsv p])")
  let ?log = "case x of PyStr s \<Rightarrow> [FatalStance (name self) c t foot s] | _ \<Rightarrow> []"
  obtain node' evs' where
    l2: "add_trail_loop (name self) c t foot ?asc (Suc (length pre)) post (node, evs @ ?log)
           = (node', evs')"
    by (cases "add_trail_loop (name self) c t foot ?asc (Suc (length pre)) post (node, evs @ ?log)")
  have l: "add_trail_loop (name self) c t foot ?asc 0 (pre @ x # post) (Map.empty, [ReadCsv p])
             = (node', evs')"
    using l1 l2 add_trail_stance_failing [OF assms(2), of "name self" c t foot ?asc "length pre" node evs]
    by (simp add: add_trail_loop_append)
  have f: "fs p = Some df" using assms(1) by (simp add: p_def)
  have r: "add_trail fs self asc c t foot (pre @ x # post)
           = (self\<lparr>trails := (trails self)(c \<mapsto> by_time(t \<mapsto>
                 trial(''asc'' \<mapsto> Asc \<lparr>path = p, doc = df\<rparr>, foot \<mapsto> Foot node')))\<rparr>,
              evs', None)"
    using p_def f l by_time_def trial_def by (rule add_trail_loaded)
  show ?thesis
    unfolding p_def [symmetric]
  proof (intro exI conjI)
    show "add_trail_loop (name self) c t foot ?asc 0 pre (Map.empty, [ReadCsv p]) = (node, evs)"
      by (rule l1)
    show "add_trail_loop (name self) c t foot ?asc (Suc (length pre)) post (node, evs @ ?log)
           = (node', evs')"
      by (rule l2)
    show "add_trail fs self asc c t foot (pre @ x # post)
           = (self\<lparr>trails := (trails self)(c \<mapsto> by_time(t \<mapsto>
                 trial(''asc'' \<mapsto> Asc \<lparr>path = p, doc = df\<rparr>, foot \<mapsto> Foot node')))\<rparr>,
              evs', None)"
      by (rule r)
    show "trail_lookup (self\<lparr>trails := (trails self)(c \<mapsto> by_time(t \<mapsto>
                 trial(''asc'' \<mapsto> Asc \<lparr>path = p, doc = df\<rparr>, foot \<mapsto> Foot node')))\<rparr>) c t foot
          = Some (Foot node')"
      by (simp add: trail_lookup_def)
  qed
qed

theorem add_trail_failing_stance_witness:
  "example_fs (folder example_subject @ ''/'' @ name example_subject @ ''/''
       @ ''S1 normal walking 1'' @ ''.asc'') = Some example_doc
   \<and> (case PyStr ''abc'' of PyStr s \<Rightarrow> isl (stance_start s) \<or> isl (stance_end s) | _ \<Rightarrow> True)
   \<and> (\<exists>self' node'.
         add_trail example_fs example_subject ''S1 normal walking 1'' ''normal walking'' ''1'' ''L''
           ([PyNaN] @ PyStr ''abc'' # [PyStr ''10.0--20.0''])
           = (self', [ReadCsv ''subjects/S1/S1 normal walking 1.asc'',
                      FatalStance ''S1'' ''normal walking'' ''1'' ''L'' ''abc''], None)
       \<and> trail_lookup self' ''normal walking'' ''1'' ''L'' = Some (Foot node')
       \<and> node' ''0'' = None \<and> node' ''1'' = None \<and> node' ''1_start'' = None
       \<and> node' ''2_start'' = Some (Scalar 10) \<and> node' ''2_end'' = Some (Scalar 20)
       \<and> node' ''2'' = Some (Slice \<lparr>index = [10, 15, 20], columns = [0..98],
                                     rows = replicate 3 (replicate 99 0)\<rparr>))"
proof -
  have h1: "example_fs (folder example_subject @ ''/'' @ name example_subject @ ''/''
       @ ''S1 normal walking 1'' @ ''.asc'') = Some example_doc"
    by (simp add: example_fs_def example_subject_def)
  have h2: "case PyStr ''abc'' of PyStr s \<Rightarrow> isl (stance_start s) \<or> isl (stance_end s) | _ \<Rightarrow> True"
    by (simp add: stance_defs)
  have s2: "show_nat (Suc (Suc 0)) = ''2''"
    by (simp add: show_nat_small digit_of_def)
  from add_trail_failing_stance
    [of example_fs example_subject "''S1 normal walking 1''" example_doc "PyStr ''abc''"
        "''normal walking''" "''1''" "''L''" "[PyNaN]" "[PyStr ''10.0--20.0'']", OF h1 h2]
  obtain self' node evs node' evs' where
    a: "add_trail_loop (name example_subject) ''normal walking'' ''1'' ''L''
         \<lparr>path = folder example_subject @ ''/'' @ name example_subject @ ''/''
                 @ ''S1 normal walking 1'' @ ''.asc'', doc = example_doc\<rparr> 0 [PyNaN]
         (Map.empty, [ReadCsv (folder example_subject @ ''/'' @ name example_subject @ ''/''
                 @ ''S1 normal walking 1'' @ ''.asc'')]) = (node, evs)"
    and b: "add_trail_loop (name example_subject) ''normal walking'' ''1'' ''L''
         \<lparr>path = folder example_subject @ ''/'' @ name example_subject @ ''/''
                 @ ''S1 normal walking 1'' @ ''.asc'', doc = example_doc\<rparr>
         (Suc (length [PyNaN])) [PyStr ''10.0--20.0'']
         (node, evs @ (case PyStr ''abc'' of
                         PyStr s \<Rightarrow> [FatalStance (name example_subject) ''normal walking'' ''1'' ''L'' s]
                       | _ \<Rightarrow> [])) = (node', evs')"
    and c: "add_trail example_fs example_subject ''S1 normal walking 1'' ''normal walking'' ''1'' ''L''
           ([PyNaN] @ PyStr ''abc'' # [PyStr ''10.0--20.0'']) = (self', evs', None)"
    and d: "trail_lookup self' ''normal walking'' ''1'' ''L'' = Some (Foot node')"
    by blast
  from a have n: "node = Map.empty" and e: "evs = [ReadCsv ''subjects/S1/S1 normal walking 1.asc'']"
    by (auto simp: example_subject_def)
  have p1: "stance_start ''10.0--20.0'' = Inr 10" by (simp add: stance_defs)
  have p2: "stance_end ''10.0--20.0'' = Inr 20" by (simp add: stance_defs)
  from b have n': "node' = [''2_start'' \<mapsto> Scalar 10, ''2_end'' \<mapsto> Scalar 20,
                          ''2'' \<mapsto> Slice \<lparr>index = [10, 15, 20], columns = [0..98],
                                     rows = replicate 3 (replicate 99 0)\<rparr>]"
    and e': "evs' = [ReadCsv ''subjects/S1/S1 normal walking 1.asc'',
                      FatalStance ''S1'' ''normal walking'' ''1'' ''L'' ''abc'']"
    unfolding n e
    by (simp_all add: example_subject_def p1 p2 example_slice s2)
  show ?thesis
    using h1 h2 c d unfolding n' e' by auto
qed

section \<open>Reading the recording file\<close>

lemma id_map_no_read: "filter is_read (fst (id_map p foot s)) = []"
  by (simp add: id_map_def is_read_def)

lemma get_time_sensor_slice_no_read:
  "filter is_read (fst (get_time_sensor_slice asc foot a b s0 s1)) = []"
  using id_map_no_read [of "path asc" foot s0] id_map_no_read [of "path asc" foot s1]
  by (cases "id_map (path asc) foot s0"; cases "id_map (path asc) foot s1")
     (simp add: get_time_sensor_slice_def)

lemma add_trail_stance_no_read:
  "filter is_read (snd (add_trail_stance nm c t foot asc idx x st)) = filter is_read (snd st)"
proof (cases st)
  case (Pair node evs)
  show ?thesis
  proof (cases x)
    case (PyStr s)
    show ?thesis
    proof (cases "isl (stance_start s) \<or> isl (stance_end s)")
      case True
      then show ?thesis
        unfolding Pair PyStr by (simp only: add_trail_stance_unparsed) (simp add: is_read_def)
    next
      case False
      then obtain a b where ab: "stance_start s = Inr a" "stance_end s = Inr b"
        by (cases "stance_start s"; cases "stance_end s") auto
      obtain ev r where g: "get_time_sensor_slice asc foot a b 1 99 = (ev, r)"
        by (cases "get_time_sensor_slice asc foot a b 1 99")
      have ev: "filter is_read ev = []"
        using get_time_sensor_slice_no_read [of asc foot a b 1 99] g by simp
      show ?thesis
      proof (cases r)
        case (Inl e)
        with ab g ev show ?thesis
          unfolding Pair PyStr
          by (simp only: add_trail_stance_slice_raises) (simp add: is_read_def)
      next
        case (Inr sl)
        with ab g ev show ?thesis
          unfolding Pair PyStr
          by (simp only: add_trail_stance_stored) simp
      qed
    qed
  qed (simp_all add: Pair)
qed

lemma add_trail_loop_no_read:
  "filter is_read (snd (add_trail_loop nm c t foot asc idx xs st)) = filter is_read (snd st)"
  by (induction xs arbitrary: idx st) (simp_all add: add_trail_stance_no_read)

text \<open>
  C5, as the code has it.  \<^verbatim>\<open>add_trail\<close> has no test for a recording that is already
  there: every call reads the recording file, exactly once and whatever
  \<^verbatim>\<open>self.trails\<close> holds, and when the file is read it stores the table just read
  under \<^verbatim>\<open>'asc'\<close> of the trial, in place of what was there (only a foot symbol
  \<^verbatim>\<open>'asc'\<close> would overwrite it again).  The table stored is the one read: the stance
  loop takes slices of it and does not change it.
\<close>

theorem add_trail_reads_every_time:
  "\<exists>self' evs err.
     add_trail fs self asc c t foot stances = (self', evs, err)
   \<and> filter is_read evs = [ReadCsv (folder self @ ''/'' @ name self @ ''/'' @ asc @ ''.asc'')]
   \<and> (\<forall>df. fs (folder self @ ''/'' @ name self @ ''/'' @ asc @ ''.asc'') = Some df \<and> foot \<noteq> ''asc''
         \<longrightarrow> trail_lookup self' c t ''asc''
               = Some (Asc \<lparr>path = folder self @ ''/'' @ name self @ ''/'' @ asc @ ''.asc'',
                             doc = df\<rparr>))"
proof -
  define p where "p = folder self @ ''/'' @ name self @ ''/'' @ asc @ ''.asc''"
  define by_time where "by_time = (case trails self c of None \<Rightarrow> Map.empty | Some d \<Rightarrow> d)"
  define trial where "trial = (case by_time t of None \<Rightarrow> Map.empty | Some d \<Rightarrow> d)"
  show ?thesis
  proof (cases "fs p")
    case None
    then show ?thesis
      unfolding p_def by (simp add: add_trail_def Pedar_asc_def is_read_def Let_def)
  next
    case (Some df)
    obtain node evs where
      l: "add_trail_loop (name self) c t foot \<lparr>path = p, doc = df\<rparr> 0 stances
            (Map.empty, [ReadCsv p]) = (node, evs)"
      by (cases "add_trail_loop (name self) c t foot \<lparr>path = p, doc = df\<rparr> 0 stances
                   (Map.empty, [ReadCsv p])")
    have r: "add_trail fs self asc c t foot stances
             = (self\<lparr>trails := (trails self)(c \<mapsto> by_time(t \<mapsto>
                   trial(''asc'' \<mapsto> Asc \<lparr>path = p, doc = df\<rparr>, foot \<mapsto> Foot node)))\<rparr>,
                evs, None)"
      using p_def Some l by_time_def trial_def by (rule add_trail_loaded)
    have e: "filter is_read evs = [ReadCsv p]"
      using add_trail_loop_no_read
        [of "name self" c t foot "\<lparr>path = p, doc = df\<rparr>" 0 stances "(Map.empty, [ReadCsv p])"] l
      by (simp add: is_read_def)
    show ?thesis
      unfolding p_def [symmetric] r using e Some by (simp add: trail_lookup_def)
  qed
qed

theorem add_trail_reads_every_time_witness:
  "example_fs (folder example_subject @ ''/'' @ name example_subject @ ''/''
       @ ''S1 normal walking 1'' @ ''.asc'') = Some example_doc
   \<and> ''R'' \<noteq> ''asc''
   \<and> (\<exists>self' evs err.
         add_trail example_fs example_subject ''S1 normal walking 1'' ''normal walking'' ''1'' ''R''
           [PyStr ''10.0--20.0''] = (self', evs, err)
       \<and> filter is_read evs = [ReadCsv ''subjects/S1/S1 normal walking 1.asc'']
       \<and> trail_lookup self' ''normal walking'' ''1'' ''asc''
           = Some (Asc \<lparr>path = ''subjects/S1/S1 normal walking 1.asc'', doc = example_doc\<rparr>))"
proof -
  have h: "example_fs (folder example_subject @ ''/'' @ name example_subject @ ''/''
       @ ''S1 normal walking 1'' @ ''.asc'') = Some example_doc"
    by (simp add: example_fs_def example_subject_def)
  have p: "folder example_subject @ ''/'' @ name example_subject @ ''/''
       @ ''S1 normal walking 1'' @ ''.asc'' = ''subjects/S1/S1 normal walking 1.asc''"
    by (simp add: example_subject_def)
  from add_trail_reads_every_time
    [of example_fs example_subject "''S1 normal walking 1''" "''normal walking''" "''1''" "''R''"
        "[PyStr ''10.0--20.0'']"]
  show ?thesis
    unfolding p using h [unfolded p] by auto
qed

text \<open>
  C5, as stated, fails.  After a first call for the left foot the table of the recording
  is stored at the condition and time of the trial; the call for the right foot of the
  same recording reads the file again.
\<close>

theorem add_trail_reloads_counterexample:
  "trail_lookup
     (fst (add_trail example_fs example_subject ''S1 normal walking 1'' ''normal walking'' ''1''
             ''L'' []))
     ''normal walking'' ''1'' ''asc''
     = Some (Asc \<lparr>path = ''subjects/S1/S1 normal walking 1.asc'', doc = example_doc\<rparr>)
   \<and> fst (snd (add_trail example_fs
                 (fst (add_trail example_fs example_subject ''S1 normal walking 1''
                         ''normal walking'' ''1'' ''L'' []))
                 ''S1 normal walking 1'' ''normal walking'' ''1'' ''R'' []))
     = [ReadCsv ''subjects/S1/S1 normal walking 1.asc'']"
  by (simp add: add_trail_def Pedar_asc_def example_fs_def example_subject_def trail_lookup_def
      Let_def)

section \<open>The loop over the rows of the spreadsheet\<close>

lemma parser_row_subjects:
  "fst (parser_row fs fld len idx r (subjects, evs)) = fst (parser_row fs fld len' idx' r (subjects, evs'))"
  by (simp add: parser_row_def Let_def split: option.splits prod.splits)

lemma parser_loop_subjects:
  "fst (parser_loop fs conds fld len idx rs (subjects, evs))
     = fst (parser_loop fs conds fld len' idx' rs (subjects, evs'))"
proof (induction rs arbitrary: idx idx' subjects evs evs')
  case Nil
  show ?case by simp
next
  case (Cons r rs)
  obtain s1 e1 where a: "parser_row fs fld len idx r (subjects, evs) = (s1, e1)"
    by (cases "parser_row fs fld len idx r (subjects, evs)")
  obtain s2 e2 where b: "parser_row fs fld len' idx' r (subjects, evs') = (s2, e2)"
    by (cases "parser_row fs fld len' idx' r (subjects, evs')")
  have "s1 = s2"
    using parser_row_subjects [of fs fld len idx r subjects evs len' idx' evs'] a b by simp
  then show ?case
    using Cons.IH [of "Suc idx" s1 e1 "Suc idx'" e2] a b by simp
qed

lemma parser_loop_break:
  assumes "list_all (\<lambda>r. asc_match conds (ident r)) pre"
    and "\<not> asc_match conds (ident bad)"
  shows "parser_loop fs conds fld len idx (pre @ bad # post) st
           = (fst (parser_loop fs conds fld len idx pre st),
              snd (parser_loop fs conds fld len idx pre st) @ [InvalidAsc (ident bad)])"
  using assms(1)
proof (induction pre arbitrary: idx st)
  case Nil
  show ?case using assms(2) by simp
next
  case (Cons r pre)
  then show ?case by simp
qed

lemma example_slice_any:
  "foot \<in> {''L'', ''R''} \<Longrightarrow>
   \<exists>sl. get_time_sensor_slice \<lparr>path = p, doc = example_doc\<rparr> foot 10 20 1 99 = ([], Inr sl)"
proof -
  assume "foot \<in> {''L'', ''R''}"
  then have "\<exists>c0 c1. id_map p foot 1 = ([], Some c0) \<and> id_map p foot 99 = ([], Some c1)"
    by (auto simp: id_map_def)
  then obtain c0 c1 where "id_map p foot 1 = ([], Some c0)" "id_map p foot 99 = ([], Some c1)"
    by blast
  then show ?thesis
    by (simp add: get_time_sensor_slice_def loc_slice_def slice_locs_sorted example_doc_def)
qed

lemma row_left_events:
  "snd (parser_row example_fs ''subjects'' len 0 row_left (Map.empty, evs))
     = evs @ [ReadCsv ''subjects/S1/S1 normal walking 1.asc'', Progress 1 len]"
proof -
  obtain sl where
    sl: "get_time_sensor_slice \<lparr>path = ''subjects/S1/S1 normal walking 1.asc'', doc = example_doc\<rparr>
           ''L'' 10 20 1 99 = ([], Inr sl)"
    using example_slice_any [of "''L''" "''subjects/S1/S1 normal walking 1.asc''"] by auto
  have p1: "stance_start ''10.0--20.0'' = Inr 10" by (simp add: stance_defs)
  have p2: "stance_end ''10.0--20.0'' = Inr 20" by (simp add: stance_defs)
  have c: "search_condition ''S1 normal walking 1'' = Some ''normal walking''"
    by (simp add: condition_at_def lower_or_space_def)
  have t: "search_time ''S1 normal walking 1'' = Some ''1''"
    by (simp add: search_time_def strip_final_newline_def digit_def)
  have s: "search_subject ''S1 normal walking 1'' = Some ''S1''"
    by (simp add: search_subject_def digit_def)
  show ?thesis
    by (simp add: parser_row_def row_left_def c t s add_trail_def Pedar_asc_def example_fs_def
        Let_def p1 p2 sl del: search_condition.simps)
qed

text \<open>
  C3.  When the rows \<open>pre\<close> all have an identifier of the expected pattern and the row
  after them has not, the subjects that \<^verbatim>\<open>Trails_Parser\<close> leaves are those of the
  rows \<open>pre\<close> alone, and the events are those of the rows \<open>pre\<close> followed by the one
  line printed for the malformed identifier: nothing of that row is ingested, and the
  rows \<open>post\<close> after it are not looked at (they only count in the length that the
  progress lines show).
\<close>

theorem Trails_Parser_stops_at_invalid_entry:
  assumes "list_all (\<lambda>r. asc_match conds (ident r)) pre"
    and "\<not> asc_match conds (ident bad)"
  shows "fst (Trails_Parser fs conds fld (pre @ bad # post)) = fst (Trails_Parser fs conds fld pre)
       \<and> snd (Trails_Parser fs conds fld (pre @ bad # post))
           = snd (parser_loop fs conds fld (length (pre @ bad # post)) 0 pre
                    (Map.empty, [LoadingEntries (length (pre @ bad # post))]))
             @ [InvalidAsc (ident bad)]"
  unfolding Trails_Parser_def parser_loop_break [OF assms]
  using parser_loop_subjects
    [of fs conds fld "length (pre @ bad # post)" 0 pre Map.empty
        "[LoadingEntries (length (pre @ bad # post))]" "length pre" 0 "[LoadingEntries (length pre)]"]
  by simp

theorem Trails_Parser_stops_at_invalid_entry_witness:
  "list_all (\<lambda>r. asc_match example_conditions (ident r)) [row_left]
   \<and> \<not> asc_match example_conditions (ident row_invalid)
   \<and> fst (Trails_Parser example_fs example_conditions ''subjects'' ([row_left] @ row_invalid # [row_right]))
       = fst (Trails_Parser example_fs example_conditions ''subjects'' [row_left])
   \<and> snd (Trails_Parser example_fs example_conditions ''subjects'' ([row_left] @ row_invalid # [row_right]))
       = [LoadingEntries 3, ReadCsv ''subjects/S1/S1 normal walking 1.asc'', Progress 1 3,
          InvalidAsc ''S1 jogging 1'']"
proof -
  have h1: "list_all (\<lambda>r. asc_match example_conditions (ident r)) [row_left]"
    by (simp add: asc_match_def example_conditions_def row_left_def pos_number_def digit_def
        strip_final_newline_def)
  have h2: "\<not> asc_match example_conditions (ident row_invalid)"
    by (simp add: asc_match_def example_conditions_def row_invalid_def pos_number_def digit_def
        strip_final_newline_def)
  from Trails_Parser_stops_at_invalid_entry [OF h1 h2, of example_fs "''subjects''" "[row_right]"]
  show ?thesis
    using h1 h2 by (simp add: row_left_events row_invalid_def)
qed

section \<open>Filling a distribution\<close>

lemma load_loop_index:
  "l_index (foldl (\<lambda>cls n. cls\<lparr>l_index := (l_index cls)(int n \<mapsto> where_eq lm (n + 1)),
                                r_index := (r_index cls)(int n + 99 \<mapsto> where_eq rm (n + 1))\<rparr>)
              init [0..<k]) n
     = (if 0 \<le> n \<and> n < int k then Some (where_eq lm (nat n + 1)) else l_index init n)
   \<and> r_index (foldl (\<lambda>cls n. cls\<lparr>l_index := (l_index cls)(int n \<mapsto> where_eq lm (n + 1)),
                                r_index := (r_index cls)(int n + 99 \<mapsto> where_eq rm (n + 1))\<rparr>)
              init [0..<k]) n
     = (if 99 \<le> n \<and> n < int k + 99 then Some (where_eq rm (nat (n - 99) + 1)) else r_index init n)
   \<and> l_shape (foldl (\<lambda>cls n. cls\<lparr>l_index := (l_index cls)(int n \<mapsto> where_eq lm (n + 1)),
                                r_index := (r_index cls)(int n + 99 \<mapsto> where_eq rm (n + 1))\<rparr>)
              init [0..<k]) = l_shape init
   \<and> r_shape (foldl (\<lambda>cls n. cls\<lparr>l_index := (l_index cls)(int n \<mapsto> where_eq lm (n + 1)),
                                r_index := (r_index cls)(int n + 99 \<mapsto> where_eq rm (n + 1))\<rparr>)
              init [0..<k]) = r_shape init"
proof (induction k)
  case 0
  show ?case by auto
next
  case (Suc k)
  then show ?case by auto
qed

lemma load_foot_mask_l_index:
  "l_index (load_foot_mask img) n
     = (if 0 \<le> n \<and> n < 198 then Some (where_eq img (nat n + 1)) else None)"
  using load_loop_index [where lm = img and rm = "mirror img" and k = 198 and n = n and
      init = "\<lparr>l_shape = shape img, r_shape = shape (mirror img),
                   l_index = Map.empty, r_index = Map.empty\<rparr>"]
  unfolding load_foot_mask_def Let_def by simp

lemma load_foot_mask_r_index:
  "r_index (load_foot_mask img) n
     = (if 99 \<le> n \<and> n < 297 then Some (where_eq (mirror img) (nat (n - 99) + 1)) else None)"
  using load_loop_index [where lm = img and rm = "mirror img" and k = 198 and n = n and
      init = "\<lparr>l_shape = shape img, r_shape = shape (mirror img),
                   l_index = Map.empty, r_index = Map.empty\<rparr>"]
  unfolding load_foot_mask_def Let_def by simp

lemma load_foot_mask_shape:
  "l_shape (load_foot_mask img) = shape img" "r_shape (load_foot_mask img) = shape img"
  using load_loop_index [where lm = img and rm = "mirror img" and k = 198 and n = 0 and
      init = "\<lparr>l_shape = shape img, r_shape = shape (mirror img),
                   l_index = Map.empty, r_index = Map.empty\<rparr>"]
  unfolding load_foot_mask_def Let_def by (simp_all add: shape_def mirror_def)

lemma upt3: "[0..<3] = [0, 1, 2]" "[0..<2] = [0, 1]"
  by (simp_all add: upt_rec)

text \<open>
  C2.  The branch of \<^verbatim>\<open>fill_foot_heat_map\<close> is \<^verbatim>\<open>n <= 99\<close>, so channel 99 goes to
  the left foot.  With a mask that has the regions 1, 2 and 100, the series with the
  channels 0 and 99 paints the left pixels of mask value 1 with the value of channel 0,
  as the specification says, and paints the left pixel of mask value 100 with the value of
  channel 99; the right grid, whose mirrored mask has two pixels of value 1, stays zero.
\<close>

theorem fill_foot_heat_map_channel_99:
  "fill_foot_heat_map (load_foot_mask example_mask)
      [''sensor_peak'' \<mapsto> [(0, Some 5), (99, Some 7)]] ''sensor_peak''
     = Inr \<lparr>l_pedar = \<lparr>nrows = 2, ncols = 3,
                        cells = [[Some 5, Some 5, Some 7], [Some 0, Some 0, Some 0]]\<rparr>,
            r_pedar = \<lparr>nrows = 2, ncols = 3,
                        cells = [[Some 0, Some 0, Some 0], [Some 0, Some 0, Some 0]]\<rparr>\<rparr>
   \<and> cells example_mask = [[1, 1, 100], [0, 2, 2]]
   \<and> cells (mirror example_mask) = [[100, 1, 1], [2, 2, 0]]"
  by (simp add: fill_foot_heat_map_def fill_channel_def load_foot_mask_l_index
      load_foot_mask_r_index load_foot_mask_shape shape_def zeros_def paint_def where_eq_def
      example_mask_def mirror_def upt3 numeral_2_eq_2 numeral_3_eq_3)

section \<open>The store under the arithmetic operations\<close>


lemma take_eq_length: "take n xs = ys \<Longrightarrow> length ys = n \<Longrightarrow> n \<le> length xs"
  by (metis length_take min.cobounded1 min_def nat_le_linear take_all)

lemma heap_extends_length:
  assumes "heap_extends h h'"
  shows "length (arrays h) \<le> length (arrays h')" "length (objects h) \<le> length (objects h')"
proof -
  from assms have "length (take (length (arrays h)) (arrays h')) = length (arrays h)"
    and "length (take (length (objects h)) (objects h')) = length (objects h)"
    by (simp_all add: heap_extends_def)
  then show "length (arrays h) \<le> length (arrays h')" "length (objects h) \<le> length (objects h')"
    by simp_all
qed

lemma heap_extends_nth:
  assumes "heap_extends h h'"
  shows "i < length (arrays h) \<Longrightarrow> arrays h' ! i = arrays h ! i"
    and "j < length (objects h) \<Longrightarrow> objects h' ! j = objects h ! j"
proof -
  assume "i < length (arrays h)"
  then have "take (length (arrays h)) (arrays h') ! i = arrays h' ! i" by simp
  with assms show "arrays h' ! i = arrays h ! i" by (simp add: heap_extends_def)
next
  assume "j < length (objects h)"
  then have "take (length (objects h)) (objects h') ! j = objects h' ! j" by simp
  with assms show "objects h' ! j = objects h ! j" by (simp add: heap_extends_def)
qed


lemma heap_extends_update:
  assumes "heap_extends h h1" and "length (arrays h) \<le> dst"
  shows "heap_extends h (h1\<lparr>arrays := (arrays h1)[dst := a]\<rparr>)"
  using assms by (simp add: heap_extends_def)

lemma heap_extends_grid:
  assumes "wf_heap h" and "heap_extends h h'" and "obj < length (objects h)"
  shows "l_grid h' obj = l_grid h obj" "r_grid h' obj = r_grid h obj"
proof -
  from assms(1,3) have "(case objects h ! obj of (l, r) \<Rightarrow> l < length (arrays h) \<and> r < length (arrays h))"
    by (simp add: wf_heap_def list_all_length)
  then have v: "fst (objects h ! obj) < length (arrays h)" "snd (objects h ! obj) < length (arrays h)"
    by (simp_all add: case_prod_beta)
  note o = heap_extends_nth(2) [OF assms(2,3)]
  show "l_grid h' obj = l_grid h obj"
    using heap_extends_nth(1) [OF assms(2) v(1)] by (simp add: l_grid_def o)
  show "r_grid h' obj = r_grid h obj"
    using heap_extends_nth(1) [OF assms(2) v(2)] by (simp add: r_grid_def o)
qed

lemma deepcopy_result:
  assumes "deepcopy h self = (h1, new_hm)"
  shows "heap_extends h h1" and "new_hm = length (objects h)"
    and "length (objects h1) = Suc (length (objects h))"
    and "objects h1 ! new_hm = (length (arrays h), length (arrays h))
         \<or> objects h1 ! new_hm = (length (arrays h), Suc (length (arrays h)))"
    and "fst (objects h1 ! new_hm) < length (arrays h1)"
    and "snd (objects h1 ! new_hm) < length (arrays h1)"
    and "arrays h1 ! fst (objects h1 ! new_hm) = l_grid h self"
    and "arrays h1 ! snd (objects h1 ! new_hm) = r_grid h self"
  using assms
  by (auto simp: deepcopy_def Let_def heap_extends_def l_grid_def r_grid_def nth_append
      split: prod.splits if_splits)

lemma inplace_shape:
  "inplace f a b = Inr c \<Longrightarrow> nrows c = nrows a \<and> ncols c = ncols a"
  by (auto simp: inplace_def split: if_splits)

lemma inplace_ok: "(\<exists>c. inplace f a b = Inr c) \<longleftrightarrow> broadcasts a b"
  by (simp add: inplace_def)

lemma inplace_fails: "\<not> broadcasts a b \<Longrightarrow> inplace f a b = Inl ValueError"
  by (simp add: inplace_def)

lemma broadcasts_shape:
  "nrows a = nrows a' \<Longrightarrow> ncols a = ncols a' \<Longrightarrow> broadcasts a b = broadcasts a' b"
  by (simp add: broadcasts_def)

lemma hm_binary_frame:
  assumes "hm_binary f h self other = (h', res)"
  shows "heap_extends h h'"
    and "res = Inr new_hm \<Longrightarrow> new_hm = length (objects h) \<and> new_hm < length (objects h')
           \<and> length (arrays h) \<le> fst (objects h' ! new_hm)
           \<and> length (arrays h) \<le> snd (objects h' ! new_hm)"
proof -
  obtain h1 n where d: "deepcopy h self = (h1, n)" by (cases "deepcopy h self")
  note r = deepcopy_result [OF d]
  have fs: "length (arrays h) \<le> fst (objects h1 ! n)" "length (arrays h) \<le> snd (objects h1 ! n)"
    using r(4) by auto
  show "heap_extends h h'"
  proof (cases "inplace_at f h1 (fst (objects h1 ! n)) (fst (objects h1 ! other))")
    case (Inl e)
    with assms d r(1) show ?thesis by (simp add: hm_binary_def)
  next
    case (Inr h2)
    then obtain a where h2: "h2 = h1\<lparr>arrays := (arrays h1)[fst (objects h1 ! n) := a]\<rparr>"
      by (auto simp: inplace_at_def split: sum.splits)
    have e2: "heap_extends h h2" unfolding h2 using r(1) fs(1) by (rule heap_extends_update)
    show ?thesis
    proof (cases "inplace_at f h2 (snd (objects h2 ! n)) (snd (objects h2 ! other))")
      case Inl
      with assms d Inr e2 show ?thesis by (simp add: hm_binary_def)
    next
      case (Inr h3)
      then obtain b where h3: "h3 = h2\<lparr>arrays := (arrays h2)[snd (objects h2 ! n) := b]\<rparr>"
        by (auto simp: inplace_at_def split: sum.splits)
      have "length (arrays h) \<le> snd (objects h2 ! n)" using fs(2) by (simp add: h2)
      with e2 have "heap_extends h h3" unfolding h3 by (rule heap_extends_update)
      with assms d \<open>inplace_at f h1 (fst (objects h1 ! n)) (fst (objects h1 ! other)) = Inr h2\<close> Inr
      show ?thesis by (simp add: hm_binary_def)
    qed
  qed
  assume "res = Inr new_hm"
  note res = this
  obtain h2 where a: "inplace_at f h1 (fst (objects h1 ! n)) (fst (objects h1 ! other)) = Inr h2"
  proof (cases "inplace_at f h1 (fst (objects h1 ! n)) (fst (objects h1 ! other))")
    case (Inl e)
    with assms d res show ?thesis by (simp add: hm_binary_def)
  qed
  obtain h3 where b: "inplace_at f h2 (snd (objects h2 ! n)) (snd (objects h2 ! other)) = Inr h3"
  proof (cases "inplace_at f h2 (snd (objects h2 ! n)) (snd (objects h2 ! other))")
    case (Inl e)
    with assms d a res show ?thesis by (simp add: hm_binary_def)
  qed
  have e: "h' = h3" "new_hm = n"
    using assms d a b res by (simp_all add: hm_binary_def)
  from a have o2: "objects h2 = objects h1" by (auto simp: inplace_at_def split: sum.splits)
  from b have o3: "objects h3 = objects h2" by (auto simp: inplace_at_def split: sum.splits)
  show "new_hm = length (objects h) \<and> new_hm < length (objects h')
           \<and> length (arrays h) \<le> fst (objects h' ! new_hm)
           \<and> length (arrays h) \<le> snd (objects h' ! new_hm)"
    using r(2,3) fs by (simp add: e o2 o3)
qed

lemma hm_scalar_frame:
  assumes "hm_scalar f h self v = (h', res)"
  shows "heap_extends h h'"
    and "res = Inr new_hm \<Longrightarrow> new_hm = length (objects h) \<and> new_hm < length (objects h')
           \<and> length (arrays h) \<le> fst (objects h' ! new_hm)
           \<and> length (arrays h) \<le> snd (objects h' ! new_hm)"
    and "\<exists>n. res = Inr n"
proof -
  obtain h1 n where d: "deepcopy h self = (h1, n)" by (cases "deepcopy h self")
  note r = deepcopy_result [OF d]
  have fs: "length (arrays h) \<le> fst (objects h1 ! n)" "length (arrays h) \<le> snd (objects h1 ! n)"
    using r(4) by auto
  let ?h2 = "inplace_scalar_at f h1 (fst (objects h1 ! n)) v"
  let ?h3 = "inplace_scalar_at f ?h2 (snd (objects ?h2 ! n)) v"
  have o2: "objects ?h2 = objects h1" by (simp add: inplace_scalar_at_def)
  have e2: "heap_extends h ?h2"
    unfolding inplace_scalar_at_def using r(1) fs(1) by (rule heap_extends_update)
  have "length (arrays h) \<le> snd (objects ?h2 ! n)" using fs(2) by (simp add: o2)
  with e2 have e3: "heap_extends h ?h3"
    unfolding inplace_scalar_at_def [of f ?h2] by (rule heap_extends_update)
  have res: "h' = ?h3" "res = Inr n"
    using assms d by (simp_all add: hm_scalar_def Let_def)
  show "heap_extends h h'" using e3 res by simp
  show "\<exists>n. res = Inr n" using res by simp
  assume "res = Inr new_hm"
  with res have "new_hm = n" by simp
  then show "new_hm = length (objects h) \<and> new_hm < length (objects h')
           \<and> length (arrays h) \<le> fst (objects h' ! new_hm)
           \<and> length (arrays h) \<le> snd (objects h' ! new_hm)"
    using r(2,3) fs res by (simp add: inplace_scalar_at_def)
qed



section \<open>When an operation returns\<close>

lemma wf_heap_refs:
  assumes "wf_heap h" and "obj < length (objects h)"
  shows "fst (objects h ! obj) < length (arrays h)" "snd (objects h ! obj) < length (arrays h)"
proof -
  from assms have "(case objects h ! obj of (l, r) \<Rightarrow> l < length (arrays h) \<and> r < length (arrays h))"
    by (simp add: wf_heap_def list_all_length)
  then show "fst (objects h ! obj) < length (arrays h)" "snd (objects h ! obj) < length (arrays h)"
    by (simp_all add: case_prod_beta)
qed

lemma deepcopy_wf:
  assumes "wf_heap h" and "deepcopy h self = (h1, n)"
  shows "wf_heap h1"
  using assms
  by (auto simp: deepcopy_def Let_def wf_heap_def list_all_length nth_append less_Suc_eq
      split: prod.splits if_splits)

lemma wf_heap_update: "wf_heap h \<Longrightarrow> wf_heap (h\<lparr>arrays := (arrays h)[i := a]\<rparr>)"
  by (simp add: wf_heap_def)

lemma deepcopy_alias:
  assumes "deepcopy h self = (h1, n)"
    and "fst (objects h1 ! n) = snd (objects h1 ! n)"
  shows "l_grid h self = r_grid h self"
  using assms
  by (auto simp: deepcopy_def Let_def l_grid_def r_grid_def split: prod.splits if_splits)

lemma hm_binary_result:
  assumes wf: "wf_heap h" and o: "other < length (objects h)"
    and r: "hm_binary f h self other = (h', res)"
  shows "(\<exists>n. res = Inr n)
           \<longleftrightarrow> broadcasts (l_grid h self) (l_grid h other)
             \<and> broadcasts (r_grid h self) (r_grid h other)"
    and "\<And>e. res = Inl e \<Longrightarrow> e = ValueError"
    and "\<And>n. res = Inr n \<Longrightarrow>
           wf_heap h' \<and> shape (l_grid h' n) = shape (l_grid h self)
           \<and> shape (r_grid h' n) = shape (r_grid h self)"
proof -
  obtain h1 n where d: "deepcopy h self = (h1, n)" by (cases "deepcopy h self")
  note c = deepcopy_result [OF d]
  let ?dl = "fst (objects h1 ! n)" and ?dr = "snd (objects h1 ! n)"
  note v = wf_heap_refs [OF wf o]
  have oo: "objects h1 ! other = objects h ! other" using c(1) o by (rule heap_extends_nth(2))
  have sl: "arrays h1 ! fst (objects h1 ! other) = l_grid h other"
    using heap_extends_nth(1) [OF c(1) v(1)] by (simp add: oo l_grid_def)
  have sr: "arrays h1 ! snd (objects h1 ! other) = r_grid h other"
    using heap_extends_nth(1) [OF c(1) v(2)] by (simp add: oo r_grid_def)
  have dl: "length (arrays h) \<le> ?dl" and dr: "length (arrays h) \<le> ?dr" using c(4) by auto
  have wf1: "wf_heap h1" using wf d by (rule deepcopy_wf)
  show "(\<exists>n. res = Inr n)
           \<longleftrightarrow> broadcasts (l_grid h self) (l_grid h other)
             \<and> broadcasts (r_grid h self) (r_grid h other)"
    and "\<And>e. res = Inl e \<Longrightarrow> e = ValueError"
    and "\<And>n. res = Inr n \<Longrightarrow>
           wf_heap h' \<and> shape (l_grid h' n) = shape (l_grid h self)
           \<and> shape (r_grid h' n) = shape (r_grid h self)"
  proof (atomize (full), cases "broadcasts (l_grid h self) (l_grid h other)")
    case False
    then have "inplace_at f h1 ?dl (fst (objects h1 ! other)) = Inl ValueError"
      by (simp add: inplace_at_def c(7) sl inplace_fails)
    with r d have "res = Inl ValueError" by (simp add: hm_binary_def)
    with False show "((\<exists>n. res = Inr n)
           \<longleftrightarrow> broadcasts (l_grid h self) (l_grid h other)
             \<and> broadcasts (r_grid h self) (r_grid h other))
       \<and> (\<forall>e. res = Inl e \<longrightarrow> e = ValueError)
       \<and> (\<forall>n. res = Inr n \<longrightarrow>
           wf_heap h' \<and> shape (l_grid h' n) = shape (l_grid h self)
           \<and> shape (r_grid h' n) = shape (r_grid h self))"
      by simp
  next
    case True
    then obtain a where a: "inplace f (l_grid h self) (l_grid h other) = Inr a"
      using inplace_ok by blast
    note sa = inplace_shape [OF a]
    define h2 where "h2 = h1\<lparr>arrays := (arrays h1)[?dl := a]\<rparr>"
    have i1: "inplace_at f h1 ?dl (fst (objects h1 ! other)) = Inr h2"
      by (simp add: inplace_at_def c(7) sl a h2_def)
    have o2: "objects h2 = objects h1" by (simp add: h2_def)
    have dst2: "nrows (arrays h2 ! ?dr) = nrows (r_grid h self)
              \<and> ncols (arrays h2 ! ?dr) = ncols (r_grid h self)"
    proof (cases "?dr = ?dl")
      case True
      then have "l_grid h self = r_grid h self" using deepcopy_alias [OF d] by simp
      with True sa c(5) show ?thesis by (simp add: h2_def)
    next
      case False
      then show ?thesis by (simp add: h2_def c(8))
    qed
    have src2: "arrays h2 ! snd (objects h2 ! other) = r_grid h other"
      using v(2) dl sr by (simp add: h2_def oo)
    have b2: "broadcasts (arrays h2 ! ?dr) (r_grid h other) = broadcasts (r_grid h self) (r_grid h other)"
      using dst2 by (simp add: broadcasts_def)
    show "((\<exists>n. res = Inr n)
           \<longleftrightarrow> broadcasts (l_grid h self) (l_grid h other)
             \<and> broadcasts (r_grid h self) (r_grid h other))
       \<and> (\<forall>e. res = Inl e \<longrightarrow> e = ValueError)
       \<and> (\<forall>n. res = Inr n \<longrightarrow>
           wf_heap h' \<and> shape (l_grid h' n) = shape (l_grid h self)
           \<and> shape (r_grid h' n) = shape (r_grid h self))"
    proof (cases "broadcasts (r_grid h self) (r_grid h other)")
      case False
      then have "inplace_at f h2 (snd (objects h2 ! n)) (snd (objects h2 ! other)) = Inl ValueError"
        by (simp add: inplace_at_def o2 src2 [unfolded o2] inplace_fails b2)
      with r d i1 have "res = Inl ValueError" by (simp add: hm_binary_def)
      with False show ?thesis by simp
    next
      case rb: True
      then obtain b where b: "inplace f (arrays h2 ! ?dr) (r_grid h other) = Inr b"
        using inplace_ok b2 by blast
      note sb = inplace_shape [OF b]
      define h3 where "h3 = h2\<lparr>arrays := (arrays h2)[?dr := b]\<rparr>"
      have i2: "inplace_at f h2 (snd (objects h2 ! n)) (snd (objects h2 ! other)) = Inr h3"
        using b by (simp add: inplace_at_def o2 src2 [unfolded o2] h3_def)
      from r d i1 i2 have res: "h' = h3" "res = Inr n" by (simp_all add: hm_binary_def)
      have wf3: "wf_heap h3" unfolding h3_def h2_def using wf1 by (intro wf_heap_update)
      have lenl: "?dl < length (arrays h2)" "?dr < length (arrays h2)"
        using c(5,6) by (simp_all add: h2_def)
      have l3: "shape (l_grid h3 n) = shape (l_grid h self)"
      proof (cases "?dr = ?dl")
        case True
        then have "l_grid h self = r_grid h self" using deepcopy_alias [OF d] by simp
        with True sb dst2 lenl show ?thesis by (simp add: l_grid_def h3_def o2 shape_def)
      next
        case False
        with sa c(5) show ?thesis by (simp add: l_grid_def h3_def h2_def shape_def)
      qed
      have r3: "shape (r_grid h3 n) = shape (r_grid h self)"
        using sb dst2 lenl by (simp add: r_grid_def h3_def o2 shape_def)
      show ?thesis using True rb res wf3 l3 r3 by simp
    qed
  qed
qed

lemma broadcasts_same_shape:
  "shape a = shape a' \<Longrightarrow> broadcasts a b = broadcasts a' b"
  by (simp add: broadcasts_def shape_def)

lemma hm_sum_result:
  assumes "wf_heap h" and "\<forall>x\<in>set xs. x < length (objects h)"
    and "hm_sum h acc xs = (h', res)"
  shows "((\<exists>n. res = Inr n)
            \<longleftrightarrow> (\<forall>x\<in>set xs. broadcasts (l_grid h acc) (l_grid h x)
                            \<and> broadcasts (r_grid h acc) (r_grid h x)))
       \<and> (\<forall>e. res = Inl e \<longrightarrow> e = ValueError)"
  using assms
proof (induction xs arbitrary: h acc)
  case Nil
  then show ?case by auto
next
  case (Cons x xs)
  from Cons.prems(2) have x: "x < length (objects h)" by simp
  obtain h1 r1 where a: "hm_binary fadd h acc x = (h1, r1)" by (cases "hm_binary fadd h acc x")
  note b = hm_binary_result [OF Cons.prems(1) x a]
  show ?case
  proof (cases r1)
    case (Inl e)
    with Cons.prems(3) a have "res = Inl e" by (simp add: hm_add_def)
    moreover from Inl b(2) have "e = ValueError" by simp
    moreover from Inl b(1) have
      "\<not> (broadcasts (l_grid h acc) (l_grid h x) \<and> broadcasts (r_grid h acc) (r_grid h x))"
      by simp
    ultimately show ?thesis by auto
  next
    case (Inr acc')
    with Cons.prems(3) a have s: "hm_sum h1 acc' xs = (h', res)" by (simp add: hm_add_def)
    from b(3) [OF Inr] have wf1: "wf_heap h1"
      and sl: "shape (l_grid h1 acc') = shape (l_grid h acc)"
      and sr: "shape (r_grid h1 acc') = shape (r_grid h acc)"
      by simp_all
    have e1: "heap_extends h h1" using a by (rule hm_binary_frame(1))
    have xs1: "\<forall>y\<in>set xs. y < length (objects h1)"
      using Cons.prems(2) heap_extends_length(2) [OF e1] by auto
    have g: "\<And>y. y \<in> set xs \<Longrightarrow> l_grid h1 y = l_grid h y \<and> r_grid h1 y = r_grid h y"
      using heap_extends_grid [OF Cons.prems(1) e1] Cons.prems(2) by simp
    have "(\<forall>y\<in>set xs. broadcasts (l_grid h1 acc') (l_grid h1 y)
                     \<and> broadcasts (r_grid h1 acc') (r_grid h1 y))
          \<longleftrightarrow> (\<forall>y\<in>set xs. broadcasts (l_grid h acc) (l_grid h y)
                     \<and> broadcasts (r_grid h acc) (r_grid h y))"
      using g broadcasts_same_shape [OF sl] broadcasts_same_shape [OF sr] by simp
    moreover from Inr b(1) have
      "broadcasts (l_grid h acc) (l_grid h x) \<and> broadcasts (r_grid h acc) (r_grid h x)"
      by blast
    ultimately show ?thesis using Cons.IH [OF wf1 xs1 s] by simp
  qed
qed

lemma broadcasts_equal_shape: "shape b = shape a \<Longrightarrow> broadcasts a b"
  by (simp add: broadcasts_def shape_def)


section \<open>The operations on the example store\<close>

lemma upt2: "[0..<2] = [0, 1]"
  by (simp add: upt_rec)

lemmas heap_eval =
  hm_add_def hm_sub_def hm_mul_def hm_truediv_def hm_binary_def hm_scalar_def deepcopy_def
  inplace_at_def inplace_scalar_at_def inplace_def inplace_scalar_def broadcasts_def
  Let_def fadd_def fsub_def fmul_def fdiv_def upt2 l_grid_def r_grid_def

lemma example_heap_wf: "wf_heap example_heap"
  by (simp add: wf_heap_def example_heap_def)

lemma example_add:
  "hm_add example_heap 0 1
     = (\<lparr>arrays = arrays example_heap
                    @ [\<lparr>nrows = 2, ncols = 2, cells = [[Some 11, Some 12], [Some 13, Some 14]]\<rparr>,
                       \<lparr>nrows = 2, ncols = 2, cells = [[Some 20, Some 20], [Some 20, Some 28]]\<rparr>],
         objects = [(0, 1), (2, 3), (4, 5)]\<rparr>, Inr 2)"
  by (simp add: heap_eval example_heap_def)

lemma example_average:
  "average example_heap [0, 1]
     = (\<lparr>arrays = arrays example_heap
                    @ [\<lparr>nrows = 2, ncols = 2, cells = [[Some 11, Some 12], [Some 13, Some 14]]\<rparr>,
                       \<lparr>nrows = 2, ncols = 2, cells = [[Some 20, Some 20], [Some 20, Some 28]]\<rparr>,
                       \<lparr>nrows = 2, ncols = 2, cells = [[Some (11 / 2), Some 6], [Some (13 / 2), Some 7]]\<rparr>,
                       \<lparr>nrows = 2, ncols = 2, cells = [[Some 10, Some 10], [Some 10, Some 14]]\<rparr>],
         objects = [(0, 1), (2, 3), (4, 5), (6, 7)]\<rparr>, Inr 3)"
  unfolding average_def list.case example_add
  by (simp add: heap_eval example_heap_def)



section \<open>When the average is returned\<close>

text \<open>
  C8, as the code has it.  In a well-formed store, for distributions that are there:
  \<^verbatim>\<open>average\<close> without arguments raises \<^verbatim>\<open>IndexError\<close>.  With arguments it returns a
  distribution exactly when the left grid and the right grid of every later argument
  can be broadcast to the shape of the first argument's grids (each dimension equal to
  it or 1), and raises numpy's \<^verbatim>\<open>ValueError\<close> otherwise.  In particular it returns a
  distribution for a non-empty list of grids of one shape.
\<close>

theorem average_fails_exactly:
  assumes "wf_heap h" and "\<forall>x\<in>set hms. x < length (objects h)"
  shows "(hms = [] \<longrightarrow> snd (average h hms) = Inl IndexError)
       \<and> (hms \<noteq> [] \<longrightarrow>
            ((\<exists>new_hm. snd (average h hms) = Inr new_hm)
               \<longleftrightarrow> (\<forall>x\<in>set (tl hms). broadcasts (l_grid h (hd hms)) (l_grid h x)
                                      \<and> broadcasts (r_grid h (hd hms)) (r_grid h x)))
          \<and> (\<forall>e. snd (average h hms) = Inl e \<longrightarrow> e = ValueError))
       \<and> (hms \<noteq> [] \<and> (\<forall>x\<in>set hms. shape (l_grid h x) = shape (l_grid h (hd hms))
                                   \<and> shape (r_grid h x) = shape (r_grid h (hd hms)))
            \<longrightarrow> (\<exists>new_hm. snd (average h hms) = Inr new_hm))"
proof (cases hms)
  case Nil
  then show ?thesis by (simp add: average_def)
next
  case (Cons x xs)
  obtain h1 r1 where s: "hm_sum h x xs = (h1, r1)" by (cases "hm_sum h x xs")
  from assms(2) Cons have xs: "\<forall>y\<in>set xs. y < length (objects h)" by simp
  note r = hm_sum_result [OF assms(1) xs s]
  have main: "((\<exists>new_hm. snd (average h hms) = Inr new_hm)
               \<longleftrightarrow> (\<forall>y\<in>set xs. broadcasts (l_grid h x) (l_grid h y)
                                \<and> broadcasts (r_grid h x) (r_grid h y)))
          \<and> (\<forall>e. snd (average h hms) = Inl e \<longrightarrow> e = ValueError)"
  proof (cases r1)
    case (Inl e)
    with s Cons have "snd (average h hms) = Inl e" by (simp add: average_def)
    with Inl r show ?thesis by auto
  next
    case (Inr acc)
    obtain h2 r2 where t: "hm_scalar fdiv h1 acc (Some (of_nat (length hms))) = (h2, r2)"
      by (cases "hm_scalar fdiv h1 acc (Some (of_nat (length hms)))")
    from hm_scalar_frame(3) [OF t] obtain n where "r2 = Inr n" by blast
    with s Cons Inr t have "snd (average h hms) = Inr n"
      by (simp add: average_def hm_truediv_def)
    with Inr r show ?thesis by auto
  qed
  have "(\<forall>y\<in>set hms. shape (l_grid h y) = shape (l_grid h x)
                    \<and> shape (r_grid h y) = shape (r_grid h x))
        \<Longrightarrow> (\<forall>y\<in>set xs. broadcasts (l_grid h x) (l_grid h y)
                          \<and> broadcasts (r_grid h x) (r_grid h y))"
    using Cons by (simp add: broadcasts_equal_shape)
  with main show ?thesis using Cons by auto
qed

theorem average_fails_exactly_witness:
  "wf_heap example_heap
   \<and> 0 < length (objects example_heap) \<and> 1 < length (objects example_heap)
   \<and> snd (average example_heap []) = Inl IndexError
   \<and> \<not> broadcasts (l_grid example_heap 1) (l_grid example_heap 0)
   \<and> snd (average example_heap [1, 0]) = Inl ValueError
   \<and> shape (l_grid example_heap 0) = shape (l_grid example_heap 0)
   \<and> (\<exists>new_hm. snd (average example_heap [0, 0]) = Inr new_hm)"
proof -
  note wf = example_heap_wf
  have v: "\<forall>x\<in>set [1, 0]. x < length (objects example_heap)" by (simp add: example_heap_def)
  have v0: "\<forall>x\<in>set []. x < length (objects example_heap)" by simp
  have v2: "\<forall>x\<in>set [0, 0]. x < length (objects example_heap)" by (simp add: example_heap_def)
  have nb: "\<not> broadcasts (l_grid example_heap 1) (l_grid example_heap 0)"
    by (simp add: broadcasts_def l_grid_def example_heap_def)
  from average_fails_exactly [OF wf v0] have e: "snd (average example_heap []) = Inl IndexError"
    by simp
  from average_fails_exactly [OF wf v] nb
  have "\<not> (\<exists>new_hm. snd (average example_heap [1, 0]) = Inr new_hm)"
    and "\<forall>e. snd (average example_heap [1, 0]) = Inl e \<longrightarrow> e = ValueError"
    by simp_all
  then have f: "snd (average example_heap [1, 0]) = Inl ValueError"
    by (cases "snd (average example_heap [1, 0])") auto
  from average_fails_exactly [OF wf v2]
  have "[0, 0] \<noteq> ([] :: nat list)
          \<and> (\<forall>x\<in>set [0, 0]. shape (l_grid example_heap x) = shape (l_grid example_heap (hd [0, 0]))
                             \<and> shape (r_grid example_heap x) = shape (r_grid example_heap (hd [0, 0])))
        \<longrightarrow> (\<exists>new_hm. snd (average example_heap [0, 0]) = Inr new_hm)"
    by blast
  then have s: "\<exists>new_hm. snd (average example_heap [0, 0]) = Inr new_hm" by simp
  have "0 < length (objects example_heap)" "1 < length (objects example_heap)"
    by (simp_all add: example_heap_def)
  then show ?thesis using wf e nb f s by simp
qed

text \<open>
  C8, as stated, fails.  The grids of object 0 are 2 by 2 and those of object 1 are 1 by
  1: the shapes do not match, and the average of the two is returned, the 1 by 1 grid
  having been added to every pixel.
\<close>

theorem average_broadcasts_counterexample:
  "shape (l_grid example_heap 0) = (2, 2) \<and> shape (l_grid example_heap 1) = (1, 1)
   \<and> shape (r_grid example_heap 0) = (2, 2) \<and> shape (r_grid example_heap 1) = (1, 1)
   \<and> snd (average example_heap [0, 1]) = Inr 3
   \<and> l_grid (fst (average example_heap [0, 1])) 3
       = \<lparr>nrows = 2, ncols = 2, cells = [[Some (11 / 2), Some 6], [Some (13 / 2), Some 7]]\<rparr>"
  unfolding example_average
  by (simp add: l_grid_def r_grid_def shape_def example_heap_def)

end
